theory Spec2Isabelle
  imports Main "HOL-Library.List_Lexorder" "HOL-Library.Char_ord"
begin

section \<open>Python primitives used by rabo2ofx.py\<close>

text \<open>
  The csv file is opened with encoding iso-8859-1, so every character of a row is one of
  the 256 code points of \<^typ>\<open>char\<close> and a Python \<open>str\<close> is a \<^typ>\<open>string\<close>.
  Python compares strings lexicographically by code point, a proper prefix being smaller:
  this is the order of \<open>List_Lexorder\<close> over \<open>Char_ord\<close>.
\<close>

datatype error = KeyError string | ValueError string

text \<open>\<open>s.replace(old, new)\<close> for a pattern \<open>old\<close> of one character.\<close>

definition replace_chr :: "char \<Rightarrow> string \<Rightarrow> string \<Rightarrow> string" where
  "replace_chr old new s = concat (map (\<lambda>c. if c = old then new else [c]) s)"

definition is_digit :: "char \<Rightarrow> bool" where
  "is_digit c = (c \<in> set ''0123456789'')"

text \<open>\<open>Py_ISSPACE\<close>: tab, newline, vertical tab, form feed, carriage return, space.\<close>

definition c_isspace :: "char \<Rightarrow> bool" where
  "c_isspace c = (of_char c \<in> {9, 10, 11, 12, 13, 32 :: nat})"

text \<open>\<open>Py_UNICODE_ISSPACE\<close> (also \<open>str.isspace\<close>, \<open>str.strip\<close>) on the code points below 256.\<close>

definition unicode_isspace :: "char \<Rightarrow> bool" where
  "unicode_isspace c =
     (of_char c \<in> {9, 10, 11, 12, 13, 28, 29, 30, 31, 32, 133, 160 :: nat})"

definition strip_with :: "(char \<Rightarrow> bool) \<Rightarrow> string \<Rightarrow> string" where
  "strip_with sp s = rev (dropWhile sp (rev (dropWhile sp s)))"

definition py_strip :: "string \<Rightarrow> string" where
  "py_strip s = strip_with unicode_isspace s"

text \<open>\<open>str(n)\<close> for an integer.\<close>

definition digit_chr :: "nat \<Rightarrow> char" where
  "digit_chr d = ''0123456789'' ! d"

fun str_nat :: "nat \<Rightarrow> string" where
  "str_nat n = (if n < 10 then [digit_chr n] else str_nat (n div 10) @ [digit_chr (n mod 10)])"

definition str_int :: "int \<Rightarrow> string" where
  "str_int i = (if i < 0 then CHR ''-'' # str_nat (nat (- i)) else str_nat (nat i))"

definition digits_val :: "string \<Rightarrow> nat" where
  "digits_val ds = foldl (\<lambda>n c. 10 * n + (of_char c - 48)) 0 ds"

subsection \<open>\<open>float(s)\<close> and \<open>int(s)\<close> on a string\<close>

text \<open>
  \<open>float(s)\<close> follows CPython: \<open>PyFloat_FromString\<close> passes the string through
  \<open>_PyUnicode_TransformDecimalAndSpaceToASCII\<close>, removes underscores
  (\<open>_Py_string_to_number_with_underscores\<close>), strips \<open>Py_ISSPACE\<close> characters at both
  ends and requires \<open>_Py_dg_strtod\<close>, or else \<open>_Py_parse_inf_or_nan\<close>, to consume all
  that is left; anything else raises ValueError. Below 256 no code point other than
  \<open>0\<close> .. \<open>9\<close> is a decimal digit.

  The program only asks whether the parsed number is \<open>>= 0\<close>, so the parse result keeps
  the exact decimal: \<open>Fin neg m e\<close> is \<open>m * 10^e\<close>, negated when \<open>neg\<close>. The double that
  \<open>float\<close> returns is this decimal rounded to nearest, ties to even; overflow gives an
  infinity of the same sign and underflow a signed zero.
\<close>

datatype pyfloat = Nan | Inf bool | Fin bool nat int

fun transform_tail :: "string \<Rightarrow> string" where
  "transform_tail [] = []"
| "transform_tail (c # cs) =
     (if of_char c < (127::nat) then c # transform_tail cs
      else if unicode_isspace c then CHR '' '' # transform_tail cs
      else ''?'')"

definition TransformDecimalAndSpaceToASCII :: "string \<Rightarrow> string" where
  "TransformDecimalAndSpaceToASCII s =
     (if \<forall>c \<in> set s. of_char c < (128::nat) then s else transform_tail s)"

fun underscores_loop :: "char \<Rightarrow> string \<Rightarrow> string option" where
  "underscores_loop prev [] = (if prev = CHR ''_'' then None else Some [])"
| "underscores_loop prev (p # ps) =
     (if p = CHR ''_'' then (if is_digit prev then underscores_loop p ps else None)
      else if prev = CHR ''_'' \<and> \<not> is_digit p then None
      else map_option ((#) p) (underscores_loop p ps))"

definition string_to_number_with_underscores :: "string \<Rightarrow> string option" where
  "string_to_number_with_underscores s =
     (if CHR ''_'' \<notin> set s then Some s else underscores_loop (CHR 0x00) s)"

fun parse_sign :: "string \<Rightarrow> bool \<times> string" where
  "parse_sign [] = (False, [])"
| "parse_sign (c # cs) =
     (if c = CHR ''-'' then (True, cs) else if c = CHR ''+'' then (False, cs) else (False, c # cs))"

text \<open>The exponent part: not consumed at all unless a digit follows the optional sign.\<close>

definition parse_exponent :: "string \<Rightarrow> int \<times> string" where
  "parse_exponent s =
     (case s of
        [] \<Rightarrow> (0, s)
      | c # t \<Rightarrow>
          if c = CHR ''e'' \<or> c = CHR ''E'' then
            (let (esign, t1) = parse_sign t; ds = takeWhile is_digit t1
             in if ds = [] then (0, s)
                else ((if esign then - int (digits_val ds) else int (digits_val ds)),
                      dropWhile is_digit t1))
          else (0, s))"

text \<open>
  \<open>_Py_dg_strtod\<close>: optional sign, digits, optional point and digits, at least one digit
  in all, optional exponent. The result is the number and the unread rest, or None when
  nothing was read. (Its guards on more than \<open>10^9\<close> digits and the clamp of the exponent at
  \<open>1.1 * 10^9\<close> do not change the sign test below.)
\<close>

definition dg_strtod :: "string \<Rightarrow> (pyfloat \<times> string) option" where
  "dg_strtod s =
     (let (neg, s1) = parse_sign s;
          ip = takeWhile is_digit s1;
          r1 = dropWhile is_digit s1;
          (fp, r2) = (case r1 of
                        [] \<Rightarrow> ([], r1)
                      | c # t \<Rightarrow> if c = CHR ''.'' then (takeWhile is_digit t, dropWhile is_digit t)
                                 else ([], r1))
      in if ip = [] \<and> fp = [] then None
         else (let (e, r3) = parse_exponent r2
               in Some (Fin neg (digits_val (ip @ fp)) (e - int (length fp)), r3)))"

definition to_lower :: "char \<Rightarrow> char" where
  "to_lower c = (if 65 \<le> (of_char c :: nat) \<and> (of_char c :: nat) \<le> 90
                 then char_of (of_char c + (32::nat)) else c)"

definition case_insensitive_match :: "string \<Rightarrow> string \<Rightarrow> bool" where
  "case_insensitive_match s t = (map to_lower (take (length t) s) = t)"

definition parse_inf_or_nan :: "string \<Rightarrow> (pyfloat \<times> string) option" where
  "parse_inf_or_nan p =
     (let (negate, s) = parse_sign p
      in if case_insensitive_match s ''inf'' then
           (let s3 = drop 3 s
            in if case_insensitive_match s3 ''inity'' then Some (Inf negate, drop 5 s3)
               else Some (Inf negate, s3))
         else if case_insensitive_match s ''nan'' then Some (Nan, drop 3 s)
         else None)"

definition py_float :: "string \<Rightarrow> pyfloat option" where
  "py_float v =
     (case string_to_number_with_underscores (TransformDecimalAndSpaceToASCII v) of
        None \<Rightarrow> None
      | Some u \<Rightarrow>
          (let s = strip_with c_isspace u
           in case dg_strtod s of
                Some (x, r) \<Rightarrow> if r = [] then Some x else None
              | None \<Rightarrow>
                  (case parse_inf_or_nan s of
                     Some (x, r) \<Rightarrow> if r = [] then Some x else None
                   | None \<Rightarrow> None)))"

text \<open>
  \<open>x >= 0\<close> on the double: false for a NaN, the sign for an infinity, and for a finite
  decimal true when it is not negative or when it rounds to \<open>-0.0\<close>, that is when its
  magnitude is at most \<open>2^-1075\<close>, half the smallest subnormal (the tie goes to zero).
\<close>

definition rounds_to_zero :: "nat \<Rightarrow> int \<Rightarrow> bool" where
  "rounds_to_zero m e = (m = 0 \<or> (e < 0 \<and> m * 2 ^ 1075 \<le> 10 ^ nat (- e)))"

fun float_ge0 :: "pyfloat \<Rightarrow> bool" where
  "float_ge0 Nan = False"
| "float_ge0 (Inf neg) = (\<not> neg)"
| "float_ge0 (Fin neg m e) = (\<not> neg \<or> rounds_to_zero m e)"

text \<open>
  \<open>int(s)\<close> in base 10 (\<open>PyLong_FromString\<close>): optional blanks, optional sign, digits
  with single underscores between them, optional blanks.
\<close>

fun long_scan :: "char \<Rightarrow> string \<Rightarrow> (string \<times> string) option" where
  "long_scan prev [] = (if prev = CHR ''_'' then None else Some ([], []))"
| "long_scan prev (c # cs) =
     (if c = CHR ''_'' then (if prev = CHR ''_'' then None else long_scan c cs)
      else if is_digit c then map_option (\<lambda>(ds, r). (c # ds, r)) (long_scan c cs)
      else if prev = CHR ''_'' then None
      else Some ([], c # cs))"

definition py_int :: "string \<Rightarrow> int option" where
  "py_int v =
     (let (neg, s1) = parse_sign (dropWhile c_isspace (TransformDecimalAndSpaceToASCII v))
      in if take 1 s1 = ''_'' then None
         else (case long_scan (CHR 0x00) s1 of
                 None \<Rightarrow> None
               | Some (ds, r) \<Rightarrow>
                   if ds = [] \<or> dropWhile c_isspace r \<noteq> [] then None
                   else Some (if neg then - int (digits_val ds) else int (digits_val ds))))"

section \<open>Class CsvFile: one csv row to one ofx record\<close>

text \<open>
  A row as \<open>csv.DictReader\<close> yields it under the field names of \<open>CsvFile.__init__\<close>, with
  every column present. (A line with fewer columns gets None for the missing ones, and the
  string operations of \<open>create_ofx\<close> raise on None.)
\<close>

record row =
  acctNr :: string
  currency :: string
  BIC :: string
  serNr :: string
  Date :: string
  interestDate :: string
  amount :: string
  balance :: string
  counterAcctNr :: string
  counterAcctName :: string
  counterPartyName :: string
  initPartyName :: string
  counterPartyBIC :: string
  bookCode :: string
  batchId :: string
  txRef :: string
  machtigingskenmerk :: string
  incassantID :: string
  betalingskenmerk :: string
  descr1 :: string
  descr2 :: string
  descr3 :: string
  redenRetour :: string
  originalAmount :: string
  originalCurrency :: string
  exchangeRate :: string

text \<open>The dict that \<open>create_ofx\<close> returns.\<close>

record ofx_data =
  account :: string
  trntype :: string
  dtposted :: string
  trnamt :: string
  fitid :: string
  name :: string
  accountto :: string
  memo :: string
  nr_overrides :: int

text \<open>
  \<open>overrides\<close> is the dict \<open>Cfg.config_overrides\<close>, from option names to strings; a string
  is true in a condition when it is not empty. \<open>self.fitid\<close> is the dict from keys to the
  last sequence number handed out.
\<close>

type_synonym overrides = "string \<rightharpoonup> string"

type_synonym fitid_dict = "string \<rightharpoonup> int"

definition map_account :: "row \<Rightarrow> overrides \<Rightarrow> int \<times> string" where
  "map_account r ov = (0, replace_chr (CHR '' '') [] (acctNr r))"

definition map_transaction_type :: "row \<Rightarrow> overrides \<Rightarrow> int \<times> string" where
  "map_transaction_type r ov =
     (0, if bookCode r = ''ac'' then ''XFER''
         else if bookCode r = ''ba'' then ''POS''
         else if bookCode r = ''bc'' then ''POS''
         else if bookCode r = ''bg'' then ''XFER''
         else if bookCode r = ''cb'' then ''XFER''
         else if bookCode r = ''ck'' then ''POS''
         else if bookCode r = ''db'' then ''OTHER''
         else if bookCode r = ''eb'' then ''DIRECTDEBIT''
         else if bookCode r = ''ei'' then ''DIRECTDEBIT''
         else if bookCode r = ''ga'' then ''ATM''
         else if bookCode r = ''gb'' then ''ATM''
         else if bookCode r = ''id'' then ''PAYMENT''
         else if bookCode r = ''ma'' then ''DIRECTDEBIT''
         else if bookCode r = ''sb'' then ''XFER''
         else if bookCode r = ''tb'' then ''XFER''
         else if take 1 (amount r) = ''-'' then ''DEBIT''
         else ''CREDIT'')"

text \<open>
  \<open>overrides['force_date_posted']\<close> is looked up before anything else is evaluated and
  raises KeyError when the option is not in the dict.
\<close>

definition map_date_posted :: "row \<Rightarrow> overrides \<Rightarrow> error + (int \<times> string)" where
  "map_date_posted r ov =
     (case ov ''force_date_posted'' of
        None \<Rightarrow> Inl (KeyError ''force_date_posted'')
      | Some flag \<Rightarrow>
          if flag \<noteq> [] \<and> interestDate r \<noteq> Date r
          then Inr (1, replace_chr (CHR ''-'') [] (Date r))
          else Inr (0, replace_chr (CHR ''-'') [] (interestDate r)))"

text \<open>\<open>dec_comma\<close> is the command line flag \<open>ARGS.dec_comma\<close>.\<close>

definition map_amount :: "bool \<Rightarrow> row \<Rightarrow> overrides \<Rightarrow> int \<times> string" where
  "map_amount dec_comma r ov =
     (0, if dec_comma then replace_chr (CHR ''.'') '','' (amount r)
         else replace_chr (CHR '','') ''.'' (amount r))"

definition map_balance :: "bool \<Rightarrow> row \<Rightarrow> overrides \<Rightarrow> int \<times> string" where
  "map_balance dec_comma r ov =
     (0, if dec_comma then replace_chr (CHR ''.'') '','' (balance r)
         else replace_chr (CHR '','') ''.'' (balance r))"

text \<open>The key of \<open>map_fitid\<close>, given the debit/credit code already computed.\<close>

definition fitid_key :: "string \<Rightarrow> string \<Rightarrow> string \<Rightarrow> string \<Rightarrow> string \<Rightarrow> string" where
  "fitid_key acc volgnr amt dtp dc_code =
     (if volgnr \<noteq> [] \<and> dtp > ''20171231'' then acc @ volgnr
      else dtp
           @ replace_chr (CHR ''+'') []
               (replace_chr (CHR ''-'') []
                 (replace_chr (CHR ''.'') []
                   (replace_chr (CHR '','') [] amt)))
           @ dc_code)"

text \<open>
  \<open>map_fitid\<close> returns the fitid and the updated dict, or the ValueError of
  \<open>float(trnamt)\<close>.
\<close>

definition map_fitid ::
  "fitid_dict \<Rightarrow> string \<Rightarrow> string \<Rightarrow> string \<Rightarrow> string \<Rightarrow> error + (string \<times> fitid_dict)" where
  "map_fitid d acc volgnr amt dtp =
     (case py_float amt of
        None \<Rightarrow> Inl (ValueError amt)
      | Some x \<Rightarrow>
          (let dc_code = (if float_ge0 x then ''C'' else ''D'');
               key = fitid_key acc volgnr amt dtp dc_code;
               sequence = (case d key of None \<Rightarrow> 0 | Some n \<Rightarrow> n + 1)
           in Inr (key @ str_int sequence, d(key \<mapsto> sequence))))"

definition map_account_to :: "row \<Rightarrow> overrides \<Rightarrow> int \<times> string" where
  "map_account_to r ov = (0, counterAcctNr r)"

definition bookcode :: "string \<rightharpoonup> string" where
  "bookcode = map_of
     [(''ac'', ''acceptgiro''), (''ba'', ''betaalautomaat''), (''bc'', ''betalen contactloos''),
      (''bg'', ''bankgiro opdracht''), (''cb'', ''crediteuren betaling''), (''ck'', ''chipknip''),
      (''db'', ''diverse boekingen''), (''eb'', ''bedrijven euro-incasso''),
      (''ei'', ''euro-incasso''), (''fb'', ''finbox''), (''ga'', ''geldautomaat euro''),
      (''gb'', ''geldautomaat vv''), (''id'', ''ideal''), (''kh'', ''kashandeling''),
      (''ma'', ''machtiging''), (''sb'', ''salarisbetaling''), (''tb'', ''eigen rekening''),
      (''sp'', ''spoedbetaling''), (''CR'', ''tegoed''), (''D'', ''tekort'')]"

definition map_memo_name :: "row \<Rightarrow> overrides \<Rightarrow> error + (int \<times> string \<times> string)" where
  "map_memo_name r ov =
     (let glue = (if counterAcctNr r \<noteq> [] \<and> counterAcctName r \<noteq> [] then '' '' else []);
          name0 = counterAcctNr r @ glue @ counterAcctName r;
          descr0 = py_strip (descr1 r @ descr2 r @ descr3 r)
      in if bookCode r = ''ba'' \<and> name0 = [] then
           Inr (0, descr1 r, replace_chr (CHR ''&'') ''&amp'' (descr2 r @ descr3 r))
         else if bookCode r = ''db'' then
           (case bookcode (bookCode r) of
              None \<Rightarrow> Inl (KeyError (bookCode r))
            | Some label \<Rightarrow>
                Inr (0, ''['' @ bookCode r @ ''] '' @ label
                        @ (if name0 \<noteq> [] then '' '' else []) @ name0,
                     replace_chr (CHR ''&'') ''&amp'' descr0))
         else if bookCode r = ''ac'' then
           Inr (0, name0,
                replace_chr (CHR ''&'') ''&amp''
                  (descr0 @ ''betalingskenmerk '' @ betalingskenmerk r))
         else Inr (0, name0, replace_chr (CHR ''&'') ''&amp'' descr0))"

text \<open>
  \<open>create_ofx\<close>, in the order of the source: the first step that raises ends it.
\<close>

definition create_ofx ::
  "bool \<Rightarrow> overrides \<Rightarrow> fitid_dict \<Rightarrow> row \<Rightarrow> error + (ofx_data \<times> fitid_dict)" where
  "create_ofx dec_comma ov d r =
     (let (n1, acc) = map_account r ov;
          (n2, ttype) = map_transaction_type r ov
      in case map_date_posted r ov of
           Inl e \<Rightarrow> Inl e
         | Inr (n3, dtp) \<Rightarrow>
             (let (n4, amt) = map_amount dec_comma r ov
              in case map_fitid d acc (serNr r) amt dtp of
                   Inl e \<Rightarrow> Inl e
                 | Inr (fid, d') \<Rightarrow>
                     (let (n5, accto) = map_account_to r ov
                      in case map_memo_name r ov of
                           Inl e \<Rightarrow> Inl e
                         | Inr (n6, nm, mm) \<Rightarrow>
                             Inr (\<lparr>account = acc, trntype = ttype, dtposted = dtp,
                                   trnamt = amt, fitid = fid, name = nm, accountto = accto,
                                   memo = mm, nr_overrides = 0 + n1 + n2 + n3 + n4 + n5 + n6\<rparr>,
                                  d'))))"

text \<open>
  The loop of \<open>CsvFile.__init__\<close> over the rows after the header line, from an empty
  \<open>self.fitid\<close>: the list \<open>self.transactions\<close>, or the first error.
\<close>

fun create_all ::
  "bool \<Rightarrow> overrides \<Rightarrow> fitid_dict \<Rightarrow> row list \<Rightarrow> error + ofx_data list" where
  "create_all dec_comma ov d [] = Inr []"
| "create_all dec_comma ov d (r # rs) =
     (case create_ofx dec_comma ov d r of
        Inl e \<Rightarrow> Inl e
      | Inr (t, d') \<Rightarrow>
          (case create_all dec_comma ov d' rs of
             Inl e \<Rightarrow> Inl e
           | Inr ts \<Rightarrow> Inr (t # ts)))"

definition CsvFile_init :: "bool \<Rightarrow> overrides \<Rightarrow> row list \<Rightarrow> error + ofx_data list" where
  "CsvFile_init dec_comma ov rows = create_all dec_comma ov Map.empty (drop 1 rows)"

section \<open>Class Cfg\<close>

text \<open>
  The ini file as \<open>configparser\<close> presents it: no file at all, or a mapping from section
  names to the options of the section in file order. \<open>config['accounts']\<close> and
  \<open>config['override']\<close> raise KeyError when the section is not there. \<open>str.upper\<close> is a
  parameter.
\<close>

type_synonym config = "string \<rightharpoonup> (string \<times> string) list"

record cfg =
  config_accounts :: "string list"
  config_overrides :: overrides

definition Cfg_init :: "(string \<Rightarrow> string) \<Rightarrow> config option \<Rightarrow> error + cfg" where
  "Cfg_init upper file =
     (case file of
        None \<Rightarrow> Inr \<lparr>config_accounts = [], config_overrides = Map.empty\<rparr>
      | Some config \<Rightarrow>
          (case config ''accounts'' of
             None \<Rightarrow> Inl (KeyError ''accounts'')
           | Some accs \<Rightarrow>
               (case config ''override'' of
                  None \<Rightarrow> Inl (KeyError ''override'')
                | Some ovs \<Rightarrow>
                    Inr \<lparr>config_accounts = map (\<lambda>(k, acc). upper acc) accs,
                         config_overrides = fold (\<lambda>(k, v) m. m(k \<mapsto> v)) ovs Map.empty\<rparr>)))"

fun main_accounts_loop :: "string list \<Rightarrow> string \<Rightarrow> string set \<Rightarrow> string set" where
  "main_accounts_loop [] a main = main"
| "main_accounts_loop (acc # accs) a main =
     (if acc = a then main else main_accounts_loop accs a (insert acc main))"

definition main_accounts :: "cfg \<Rightarrow> string \<Rightarrow> string set" where
  "main_accounts c a = main_accounts_loop (config_accounts c) a {}"

section \<open>Class OfxWriter\<close>

text \<open>
  \<open>processed\<close> is the set \<open>OfxWriter.processed_accounts\<close> at the time of the call.
\<close>

definition gather_transfer_accounts :: "cfg \<Rightarrow> string set \<Rightarrow> string \<Rightarrow> string set" where
  "gather_transfer_accounts c processed a =
     (let transfer_accounts =
            (if a \<in> set (config_accounts c) then main_accounts c a
             else fold insert (config_accounts c) {})
      in transfer_accounts \<union> Set.filter (\<lambda>acc. acc \<notin> set (config_accounts c)) processed)"

text \<open>
  The counters kept per account in the dict \<open>accounts\<close> of \<open>run\<close>; \<open>acc_overrides\<close> is
  its entry \<open>nr_overrides\<close>. The dict keeps its keys in the order of insertion, so it is a
  list of pairs with distinct keys.
\<close>

record account_rec =
  txn_ctr :: int
  txn_skip :: int
  txn_processed :: int
  acc_overrides :: int

text \<open>
  What is written to the ofx file, without the text of the templates: the header, and per
  account its start with the date range, its transactions and its end, then the footer.
\<close>

datatype ofx_item =
  MessageHeader
  | AccountStart string int int
  | Transaction ofx_data
  | AccountEnd
  | MessageFooter

record writer =
  accounts :: "(string \<times> account_rec) list"
  processed_accounts :: "string set"
  ofxfile :: "ofx_item list"

text \<open>The first loop of \<open>run\<close>: the accounts in first-seen order and the date range.\<close>

fun gather_accounts ::
  "ofx_data list \<Rightarrow> (string \<times> account_rec) list \<Rightarrow> int \<Rightarrow> int
     \<Rightarrow> error + ((string \<times> account_rec) list \<times> int \<times> int)" where
  "gather_accounts [] accs mindate maxdate = Inr (accs, mindate, maxdate)"
| "gather_accounts (trns # rest) accs mindate maxdate =
     (let accs' = (if account trns \<in> fst ` set accs then accs
                   else accs @ [(account trns,
                                 \<lparr>txn_ctr = 0, txn_skip = 0, txn_processed = 0,
                                  acc_overrides = 0\<rparr>)])
      in case py_int (dtposted trns) of
           None \<Rightarrow> Inl (ValueError (dtposted trns))
         | Some d \<Rightarrow>
             gather_accounts rest accs'
               (if d < mindate then d else mindate) (if d > maxdate then d else maxdate))"

text \<open>\<open>accounts[k]\<close> updated in place.\<close>

definition adjust ::
  "string \<Rightarrow> (account_rec \<Rightarrow> account_rec) \<Rightarrow> (string \<times> account_rec) list
     \<Rightarrow> (string \<times> account_rec) list" where
  "adjust k f accs = map (\<lambda>(k', v). if k' = k then (k', f v) else (k', v)) accs"

text \<open>The inner loop of \<open>run\<close> over all transactions, for the account \<open>a\<close>.\<close>

fun txn_loop :: "bool \<Rightarrow> string set \<Rightarrow> string \<Rightarrow> ofx_data list \<Rightarrow> writer \<Rightarrow> writer" where
  "txn_loop homebank transfer a [] w = w"
| "txn_loop homebank transfer a (trns # rest) w =
     txn_loop homebank transfer a rest
       (if account trns = a then
          (let w1 = w\<lparr>accounts := adjust a (\<lambda>r. r\<lparr>txn_ctr := txn_ctr r + 1\<rparr>) (accounts w)\<rparr>
           in if accountto trns \<in> transfer \<and> \<not> homebank then
                w1\<lparr>accounts := adjust a (\<lambda>r. r\<lparr>txn_skip := txn_skip r + 1\<rparr>) (accounts w1)\<rparr>
              else
                w1\<lparr>accounts :=
                      adjust a (\<lambda>r. r\<lparr>txn_processed := txn_processed r + 1,
                                       acc_overrides := acc_overrides r + nr_overrides trns\<rparr>)
                        (accounts w1),
                    ofxfile := ofxfile w1 @ [Transaction trns]\<rparr>)
        else w)"

text \<open>The outer loop of \<open>run\<close> over the keys of \<open>accounts\<close>.\<close>

fun account_loop ::
  "bool \<Rightarrow> cfg \<Rightarrow> ofx_data list \<Rightarrow> int \<Rightarrow> int \<Rightarrow> string list \<Rightarrow> writer \<Rightarrow> writer" where
  "account_loop homebank c txns mindate maxdate [] w = w"
| "account_loop homebank c txns mindate maxdate (a # rest) w =
     (let w1 = w\<lparr>ofxfile := ofxfile w @ [AccountStart a mindate maxdate]\<rparr>;
          transfer = gather_transfer_accounts c (processed_accounts w1) a;
          w2 = txn_loop homebank transfer a txns w1;
          w3 = w2\<lparr>ofxfile := ofxfile w2 @ [AccountEnd],
                  processed_accounts := insert a (processed_accounts w2)\<rparr>
      in account_loop homebank c txns mindate maxdate rest w3)"

text \<open>
  \<open>run\<close>: \<open>homebank\<close> is \<open>ARGS.homebank\<close> (dual-leg mode), \<open>txns\<close> is
  \<open>self.csv.transactions\<close>. The set of processed accounts is empty when the one run of a
  process starts. The only step that can raise is \<open>int(trns['dtposted'])\<close> in the first
  loop, before anything is written.
\<close>

definition run :: "bool \<Rightarrow> cfg \<Rightarrow> ofx_data list \<Rightarrow> error + writer" where
  "run homebank c txns =
     (case gather_accounts txns [] 999999999 0 of
        Inl e \<Rightarrow> Inl e
      | Inr (accs, mindate, maxdate) \<Rightarrow>
          (let w = account_loop homebank c txns mindate maxdate (map fst accs)
                     \<lparr>accounts = accs, processed_accounts = {}, ofxfile = [MessageHeader]\<rparr>
           in Inr (w\<lparr>ofxfile := ofxfile w @ [MessageFooter]\<rparr>)))"

text \<open>The transactions written to the file, in the order written.\<close>

fun emitted :: "ofx_item list \<Rightarrow> ofx_data list" where
  "emitted [] = []"
| "emitted (Transaction t # items) = t # emitted items"
| "emitted (_ # items) = emitted items"

text \<open>The main program: the configuration, the csv file, the run.\<close>

definition main_program ::
  "(string \<Rightarrow> string) \<Rightarrow> config option \<Rightarrow> bool \<Rightarrow> bool \<Rightarrow> row list \<Rightarrow> error + writer" where
  "main_program upper file dec_comma homebank rows =
     (case Cfg_init upper file of
        Inl e \<Rightarrow> Inl e
      | Inr c \<Rightarrow>
          (case CsvFile_init dec_comma (config_overrides c) rows of
             Inl e \<Rightarrow> Inl e
           | Inr txns \<Rightarrow> run homebank c txns))"

section \<open>Vocabulary of the properties\<close>

text \<open>A row with every column empty, to build examples from.\<close>

definition empty_row :: row where
  "empty_row = \<lparr>acctNr = [], currency = [], BIC = [], serNr = [], Date = [], interestDate = [],
     amount = [], balance = [], counterAcctNr = [], counterAcctName = [], counterPartyName = [],
     initPartyName = [], counterPartyBIC = [], bookCode = [], batchId = [], txRef = [],
     machtigingskenmerk = [], incassantID = [], betalingskenmerk = [], descr1 = [], descr2 = [],
     descr3 = [], redenRetour = [], originalAmount = [], originalCurrency = [],
     exchangeRate = []\<rparr>"

definition is_separator :: "char \<Rightarrow> bool" where
  "is_separator ch = (ch = CHR ''.'' \<or> ch = CHR '','')"

text \<open>
  \<open>map_amount\<close> under one preference, applied to the row that carries the amount mapped
  under the other.
\<close>

definition point_then_comma :: "row \<Rightarrow> overrides \<Rightarrow> string" where
  "point_then_comma r ov =
     snd (map_amount True (r\<lparr>amount := snd (map_amount False r ov)\<rparr>) ov)"

definition comma_then_point :: "row \<Rightarrow> overrides \<Rightarrow> string" where
  "comma_then_point r ov =
     snd (map_amount False (r\<lparr>amount := snd (map_amount True r ov)\<rparr>) ov)"

text \<open>The sequence number \<open>map_fitid\<close> gives to a key under the dict \<open>d\<close>.\<close>

definition next_sequence :: "fitid_dict \<Rightarrow> string \<Rightarrow> int" where
  "next_sequence d key = (case d key of None \<Rightarrow> 0 | Some n \<Rightarrow> n + 1)"

text \<open>
  The assembler in closed form. A transaction is kept, that is written and counted as
  processed, unless its counter account is in the transfer set and the run is single-leg.
  \<open>step\<close> is what one transaction does to the counters of the account \<open>a\<close>, \<open>tally\<close>
  what a whole list does, and \<open>transfer_of c P ks k\<close> is the transfer set in force when the
  account \<open>k\<close> is reached in the key order \<open>ks\<close>, starting from the processed set \<open>P\<close>.
\<close>

definition keep :: "bool \<Rightarrow> string set \<Rightarrow> ofx_data \<Rightarrow> bool" where
  "keep homebank transfer t = (\<not> (accountto t \<in> transfer \<and> \<not> homebank))"

definition step ::
  "bool \<Rightarrow> string set \<Rightarrow> string \<Rightarrow> ofx_data \<Rightarrow> account_rec \<Rightarrow> account_rec" where
  "step hb T a t r =
     (if account t = a then
        (if accountto t \<in> T \<and> \<not> hb
         then r\<lparr>txn_ctr := txn_ctr r + 1, txn_skip := txn_skip r + 1\<rparr>
         else r\<lparr>txn_ctr := txn_ctr r + 1, txn_processed := txn_processed r + 1,
                acc_overrides := acc_overrides r + nr_overrides t\<rparr>)
      else r)"

definition tally ::
  "bool \<Rightarrow> string set \<Rightarrow> string \<Rightarrow> ofx_data list \<Rightarrow> account_rec \<Rightarrow> account_rec" where
  "tally homebank transfer a ts r =
     r\<lparr>txn_ctr := txn_ctr r + int (length [t \<leftarrow> ts. account t = a]),
       txn_skip :=
         txn_skip r + int (length [t \<leftarrow> ts. account t = a \<and> \<not> keep homebank transfer t]),
       txn_processed :=
         txn_processed r + int (length [t \<leftarrow> ts. account t = a \<and> keep homebank transfer t]),
       acc_overrides :=
         acc_overrides r
         + sum_list (map nr_overrides [t \<leftarrow> ts. account t = a \<and> keep homebank transfer t])\<rparr>"

abbreviation transfer_of :: "cfg \<Rightarrow> string set \<Rightarrow> string list \<Rightarrow> string \<Rightarrow> string set" where
  "transfer_of c P ks k \<equiv>
     gather_transfer_accounts c (P \<union> set (takeWhile (\<lambda>x. x \<noteq> k) ks)) k"

text \<open>
  The position of an account in the configured ordering: the index of its first occurrence
  (the length of the ordering when it does not occur).
\<close>

definition position :: "string list \<Rightarrow> string \<Rightarrow> nat" where
  "position accs a = length (takeWhile (\<lambda>x. x \<noteq> a) accs)"

text \<open>Example data: a transfer leg, a configuration, csv rows.\<close>

definition example_txn :: "string \<Rightarrow> string \<Rightarrow> string \<Rightarrow> ofx_data" where
  "example_txn a b fid =
     \<lparr>account = a, trntype = ''XFER'', dtposted = ''20230105'', trnamt = ''-12.34'',
      fitid = fid, name = b, accountto = b, memo = [], nr_overrides = 0\<rparr>"

definition example_cfg :: cfg where
  "example_cfg = \<lparr>config_accounts = [''A'', ''B'', ''C''],
                  config_overrides = [''force_date_posted'' \<mapsto> []]\<rparr>"

definition example_row :: "string \<Rightarrow> string \<Rightarrow> row" where
  "example_row acct nr =
     empty_row\<lparr>acctNr := acct, serNr := nr, Date := ''2018-01-05'',
               interestDate := ''2018-01-05'', amount := ''1''\<rparr>"

text \<open>
  A header line, eleven rows of account \<open>A\<close> with sequence number \<open>1\<close> and one row of
  account \<open>A\<close> with sequence number \<open>11\<close>.
\<close>

definition colliding_rows :: "row list" where
  "colliding_rows =
     [empty_row,
      example_row ''A'' ''1'', example_row ''A'' ''1'', example_row ''A'' ''1'',
      example_row ''A'' ''1'', example_row ''A'' ''1'', example_row ''A'' ''1'',
      example_row ''A'' ''1'', example_row ''A'' ''1'', example_row ''A'' ''1'',
      example_row ''A'' ''1'', example_row ''A'' ''1'', example_row ''A'' ''11'']"

text \<open>
  The amounts of the data model: an optional sign, digits, and optionally a separator
  \<open>.\<close> or \<open>,\<close> followed by digits. An amount has a fractional part when it has a
  separator.
\<close>

definition wf_amount :: "string \<Rightarrow> bool" where
  "wf_amount s =
     (let body = snd (parse_sign s);
          ip = takeWhile is_digit body;
          rest = dropWhile is_digit body
      in ip \<noteq> []
         \<and> (case rest of
               [] \<Rightarrow> True
             | sep # ds \<Rightarrow> is_separator sep \<and> ds \<noteq> [] \<and> list_all is_digit ds))"

definition has_separator :: "string \<Rightarrow> bool" where
  "has_separator s = (\<exists>ch \<in> set s. is_separator ch)"

text \<open>Characters no float literal contains, and the characters of a decimal literal.\<close>

definition bad_char :: "char \<Rightarrow> bool" where
  "bad_char c = (c = CHR '','' \<or> c = CHR ''?'')"

definition num_char :: "char \<Rightarrow> bool" where
  "num_char c = (is_digit c \<or> c \<in> set ''+-.eE'')"

text \<open>
  Example configurations: a file without an accounts section, and a file whose accounts
  section has no entry. Example rows: a header line and the two legs of a transfer between
  the accounts \<open>A\<close> and \<open>B\<close>, and what \<open>create_ofx\<close> makes of a leg.
\<close>

definition config_without_accounts :: config where
  "config_without_accounts = [''override'' \<mapsto> [(''force_date_posted'', [])]]"

definition config_empty_accounts :: config where
  "config_empty_accounts =
     [''accounts'' \<mapsto> [], ''override'' \<mapsto> [(''force_date_posted'', [])]]"

definition transfer_row :: "string \<Rightarrow> string \<Rightarrow> row" where
  "transfer_row acct counter = (example_row acct ''1'')\<lparr>counterAcctNr := counter\<rparr>"

definition transfer_rows :: "row list" where
  "transfer_rows = [empty_row, transfer_row ''A'' ''B'', transfer_row ''B'' ''A'']"

definition transfer_leg :: "string \<Rightarrow> string \<Rightarrow> ofx_data" where
  "transfer_leg a b =
     \<lparr>account = a, trntype = ''CREDIT'', dtposted = ''20180105'', trnamt = ''1'',
      fitid = a @ ''10'', name = b, accountto = b, memo = [], nr_overrides = 0\<rparr>"

section \<open>Properties\<close>

subsection \<open>Strings\<close>


lemma replace_chr_single: "replace_chr c [b] s = map (\<lambda>x. if x = c then b else x) s"
  by (induction s) (simp_all add: replace_chr_def)

lemmas float_eval =
  py_float_def string_to_number_with_underscores_def TransformDecimalAndSpaceToASCII_def
  strip_with_def c_isspace_def dg_strtod_def is_digit_def parse_exponent_def digits_val_def
  parse_inf_or_nan_def case_insensitive_match_def to_lower_def

subsection \<open>The transfer classifier\<close>

lemma main_accounts_loop_takeWhile:
  "main_accounts_loop xs a main = main \<union> set (takeWhile (\<lambda>x. x \<noteq> a) xs)"
  by (induction xs arbitrary: main) auto

lemma fold_insert_set: "fold insert xs A = set xs \<union> A"
  by (induction xs arbitrary: A) auto

lemma gather_transfer_accounts_eq:
  "gather_transfer_accounts c P a =
     (if a \<in> set (config_accounts c)
      then set (takeWhile (\<lambda>x. x \<noteq> a) (config_accounts c))
      else set (config_accounts c))
     \<union> {p \<in> P. p \<notin> set (config_accounts c)}"
  by (auto simp add: gather_transfer_accounts_def main_accounts_def
        main_accounts_loop_takeWhile fold_insert_set)

text \<open>
  C5. For every account \<open>a\<close>, configured ordering \<open>config_accounts c\<close> and set \<open>P\<close> of
  accounts already processed, \<open>gather_transfer_accounts\<close> returns: when \<open>a\<close> occurs in
  the ordering, the accounts before its first occurrence (\<open>a\<close> itself is not among them);
  when it does not occur, the whole ordering; in both cases together with every account of
  \<open>P\<close> that is not in the ordering.
\<close>

theorem gather_transfer_accounts_spec:
  "gather_transfer_accounts c P a =
     (if a \<in> set (config_accounts c)
      then set (takeWhile (\<lambda>x. x \<noteq> a) (config_accounts c))
      else set (config_accounts c))
     \<union> {p \<in> P. p \<notin> set (config_accounts c)}
   \<and> a \<notin> set (takeWhile (\<lambda>x. x \<noteq> a) (config_accounts c))"
proof
  show "gather_transfer_accounts c P a =
     (if a \<in> set (config_accounts c)
      then set (takeWhile (\<lambda>x. x \<noteq> a) (config_accounts c))
      else set (config_accounts c))
     \<union> {p \<in> P. p \<notin> set (config_accounts c)}"
    by (rule gather_transfer_accounts_eq)
  show "a \<notin> set (takeWhile (\<lambda>x. x \<noteq> a) (config_accounts c))"
    by (auto dest: set_takeWhileD)
qed

subsection \<open>The field mapper\<close>



text \<open>
  C8. For every amount string, mapping it under the point preference and then under the
  comma preference, or the other way round, gives a string of the same length that has the
  second separator wherever the amount has a \<open>.\<close> or a \<open>,\<close> and the character of the
  amount everywhere else: digits and sign are unchanged.
\<close>

theorem map_amount_round_trip:
  "point_then_comma r ov = map (\<lambda>ch. if is_separator ch then CHR '','' else ch) (amount r)
   \<and> comma_then_point r ov = map (\<lambda>ch. if is_separator ch then CHR ''.'' else ch) (amount r)
   \<and> length (point_then_comma r ov) = length (amount r)
   \<and> length (comma_then_point r ov) = length (amount r)
   \<and> (\<forall>i < length (amount r).
        if is_separator (amount r ! i)
        then point_then_comma r ov ! i = CHR '','' \<and> comma_then_point r ov ! i = CHR ''.''
        else point_then_comma r ov ! i = amount r ! i \<and> comma_then_point r ov ! i = amount r ! i)"
  by (simp add: point_then_comma_def comma_then_point_def map_amount_def replace_chr_single
        is_separator_def)

theorem map_amount_round_trip_witness:
  "point_then_comma (empty_row\<lparr>amount := ''-12.34''\<rparr>) Map.empty = ''-12,34''
   \<and> comma_then_point (empty_row\<lparr>amount := ''-12.34''\<rparr>) Map.empty = ''-12.34''
   \<and> (3 < length ''-12.34'' \<and> is_separator (''-12.34'' ! 3)
        \<and> point_then_comma (empty_row\<lparr>amount := ''-12.34''\<rparr>) Map.empty ! 3 = CHR '','')
   \<and> (0 < length ''-12.34'' \<and> \<not> is_separator (''-12.34'' ! 0)
        \<and> point_then_comma (empty_row\<lparr>amount := ''-12.34''\<rparr>) Map.empty ! 0 = CHR ''-'')"
  using map_amount_round_trip [of "empty_row\<lparr>amount := ''-12.34''\<rparr>" Map.empty]
  by (simp add: empty_row_def is_separator_def)

subsection \<open>The identifier generator\<close>

text \<open>
  C3. For an amount that \<open>float\<close> accepts: if the posted date is \<open>20171231\<close> or earlier
  (as strings), the key of \<open>map_fitid\<close> is the posted date, then the amount without its
  \<open>.\<close>, \<open>,\<close>, \<open>-\<close> and \<open>+\<close> characters, then the debit/credit code, whatever the
  sequence number; if the posted date is \<open>20180101\<close> or later and the sequence number is
  not empty, the key is the account followed by the sequence number. The fitid is the key
  followed by the sequence of the key, which is stored under the key.
\<close>

theorem map_fitid_key_switch:
  assumes "py_float amt = Some x"
  shows "(dtp \<le> ''20171231'' \<longrightarrow>
            (let key = dtp @ filter (\<lambda>ch. ch \<notin> set ''.,-+'') amt
                        @ (if float_ge0 x then ''C'' else ''D'')
             in map_fitid d acc volgnr amt dtp
                  = Inr (key @ str_int (next_sequence d key), d(key \<mapsto> next_sequence d key))))
       \<and> (''20180101'' \<le> dtp \<and> volgnr \<noteq> [] \<longrightarrow>
            (let key = acc @ volgnr
             in map_fitid d acc volgnr amt dtp
                  = Inr (key @ str_int (next_sequence d key), d(key \<mapsto> next_sequence d key))))"
proof -
  have strip: "replace_chr (CHR ''+'') [] (replace_chr (CHR ''-'') []
                 (replace_chr (CHR ''.'') [] (replace_chr (CHR '','') [] amt)))
               = filter (\<lambda>ch. ch \<notin> set ''.,-+'') amt"
    by (induction amt) (simp_all add: replace_chr_def)
  have later: "''20171231'' < dtp" if "''20180101'' \<le> dtp"
  proof -
    have "''20171231'' < ''20180101''" by simp
    from this that show ?thesis by (rule less_le_trans)
  qed
  show ?thesis
    using assms later
    by (auto simp add: map_fitid_def fitid_key_def next_sequence_def Let_def strip)
qed

theorem map_fitid_key_switch_witness:
  "py_float ''-12.34'' = Some (Fin True 1234 (- 2)) \<and> ''20171231'' \<le> ''20171231''
   \<and> map_fitid Map.empty ''NL01'' ''7'' ''-12.34'' ''20171231''
       = Inr (''201712311234D0'', [''201712311234D'' \<mapsto> 0])
   \<and> ''20180101'' \<le> ''20180101'' \<and> ''7'' \<noteq> []
   \<and> map_fitid [''NL017'' \<mapsto> 0] ''NL01'' ''7'' ''-12.34'' ''20180101''
       = Inr (''NL0171'', [''NL017'' \<mapsto> 1])"
proof -
  have p: "py_float ''-12.34'' = Some (Fin True 1234 (- 2))"
    by (simp add: float_eval)
  show ?thesis
    using p map_fitid_key_switch [OF p, where dtp = "''20171231''" and d = Map.empty
          and acc = "''NL01''" and volgnr = "''7''"]
      map_fitid_key_switch [OF p, where dtp = "''20180101''" and d = "[''NL017'' \<mapsto> 0]"
          and acc = "''NL01''" and volgnr = "''7''"]
    by (simp add: next_sequence_def str_int_def digit_chr_def rounds_to_zero_def Let_def)
qed

subsection \<open>The statement assembler\<close>

lemma adjust_adjust: "adjust k f (adjust k g accs) = adjust k (f \<circ> g) accs"
  by (induction accs) (auto simp add: adjust_def)

lemma adjust_id: "(\<And>r. f r = r) \<Longrightarrow> adjust k f accs = accs"
  by (induction accs) (auto simp add: adjust_def)

lemma map_fst_adjust: "map fst (adjust k f accs) = map fst accs"
  by (induction accs) (auto simp add: adjust_def)

lemma map_of_adjust:
  "map_of (adjust k f accs) k' = (if k' = k then map_option f (map_of accs k) else map_of accs k')"
  by (induction accs) (auto simp add: adjust_def)

lemma emitted_append: "emitted (xs @ ys) = emitted xs @ emitted ys"
  by (induction xs rule: emitted.induct) simp_all

lemma emitted_Transactions: "emitted (map Transaction ts) = ts"
  by (induction ts) simp_all

lemma tally_Nil: "tally hb T a [] r = r"
  by (simp add: tally_def)

lemma tally_Cons: "tally hb T a (t # ts) r = tally hb T a ts (step hb T a t r)"
  by (simp add: tally_def step_def keep_def)

lemma txn_loop_step:
  "txn_loop hb T a (t # ts) w =
     txn_loop hb T a ts
       (w\<lparr>accounts := adjust a (step hb T a t) (accounts w),
          ofxfile := ofxfile w @ map Transaction [t' \<leftarrow> [t]. account t' = a \<and> keep hb T t']\<rparr>)"
  by (auto simp add: step_def [abs_def] keep_def Let_def adjust_adjust adjust_id comp_def)

lemma txn_loop_eq:
  "txn_loop hb T a ts w =
     w\<lparr>accounts := adjust a (tally hb T a ts) (accounts w),
       ofxfile := ofxfile w @ map Transaction [t \<leftarrow> ts. account t = a \<and> keep hb T t]\<rparr>"
proof (induction ts arbitrary: w)
  case Nil
  show ?case by (simp add: tally_Nil adjust_id)
next
  case (Cons t ts)
  have "tally hb T a ts \<circ> step hb T a t = tally hb T a (t # ts)"
    by (simp add: fun_eq_iff tally_Cons)
  then show ?case
    unfolding txn_loop_step Cons.IH by (simp add: adjust_adjust)
qed

lemma account_loop_processed:
  "processed_accounts (account_loop hb c txns mn mx ks w) = processed_accounts w \<union> set ks"
  by (induction ks arbitrary: w) (simp_all add: txn_loop_eq Let_def)

lemma account_loop_keys:
  "map fst (accounts (account_loop hb c txns mn mx ks w)) = map fst (accounts w)"
  by (induction ks arbitrary: w) (simp_all add: txn_loop_eq Let_def map_fst_adjust)

lemma account_loop_lookup:
  "distinct ks \<Longrightarrow>
   map_of (accounts (account_loop hb c txns mn mx ks w)) k =
     (if k \<in> set ks
      then map_option (tally hb (transfer_of c (processed_accounts w) ks k) k txns)
             (map_of (accounts w) k)
      else map_of (accounts w) k)"
proof (induction ks arbitrary: w)
  case Nil
  show ?case by simp
next
  case (Cons a ks)
  from Cons.prems have d: "distinct ks" and a: "a \<notin> set ks" by simp_all
  show ?case
  proof (cases "k = a")
    case True
    have "k \<notin> set ks" using a True by simp
    then show ?thesis
      unfolding True [symmetric]
      by (simp add: Cons.IH [OF d] txn_loop_eq Let_def map_of_adjust)
  next
    case False
    then show ?thesis
      by (simp add: Cons.IH [OF d] txn_loop_eq Let_def map_of_adjust)
  qed
qed

lemma account_loop_Cons:
  "account_loop hb c txns mn mx (a # ks) w =
     account_loop hb c txns mn mx ks
       (w\<lparr>accounts :=
            adjust a (tally hb (gather_transfer_accounts c (processed_accounts w) a) a txns)
              (accounts w),
          ofxfile :=
            ofxfile w @ [AccountStart a mn mx]
            @ map Transaction
                [t \<leftarrow> txns. account t = a
                   \<and> keep hb (gather_transfer_accounts c (processed_accounts w) a) t]
            @ [AccountEnd],
          processed_accounts := insert a (processed_accounts w)\<rparr>)"
  by (simp add: txn_loop_eq Let_def)

lemma account_loop_emitted:
  "distinct ks \<Longrightarrow>
   emitted (ofxfile (account_loop hb c txns mn mx ks w)) =
     emitted (ofxfile w)
     @ concat (map (\<lambda>k. [t \<leftarrow> txns. account t = k
                            \<and> keep hb (transfer_of c (processed_accounts w) ks k) t]) ks)"
proof (induction ks arbitrary: w)
  case Nil
  show ?case by simp
next
  case (Cons a ks)
  from Cons.prems have d: "distinct ks" and a: "a \<notin> set ks" by simp_all
  let ?F = "\<lambda>P ks k. [t \<leftarrow> txns. account t = k \<and> keep hb (transfer_of c P ks k) t]"
  have tail: "map (?F (insert a (processed_accounts w)) ks) ks
            = map (?F (processed_accounts w) (a # ks)) ks"
  proof (intro map_cong refl)
    fix k assume "k \<in> set ks"
    with a have "takeWhile (\<lambda>x. x \<noteq> k) (a # ks) = a # takeWhile (\<lambda>x. x \<noteq> k) ks"
      by auto
    then show "?F (insert a (processed_accounts w)) ks k = ?F (processed_accounts w) (a # ks) k"
      by simp
  qed
  have head: "?F (processed_accounts w) (a # ks) a
            = [t \<leftarrow> txns. account t = a
                 \<and> keep hb (gather_transfer_accounts c (processed_accounts w) a) t]"
    by simp
  have "emitted (ofxfile (account_loop hb c txns mn mx (a # ks) w))
      = (emitted (ofxfile w) @ ?F (processed_accounts w) (a # ks) a)
        @ concat (map (?F (insert a (processed_accounts w)) ks) ks)"
    unfolding account_loop_Cons Cons.IH [OF d] head
    by (simp add: emitted_append emitted_Transactions)
  also have "\<dots> = emitted (ofxfile w) @ concat (map (?F (processed_accounts w) (a # ks)) (a # ks))"
    unfolding tail by simp
  finally show ?case .
qed

lemma gather_accounts_keys:
  "gather_accounts txns accs mn mx = Inr (accs', mn', mx') \<Longrightarrow> distinct (map fst accs) \<Longrightarrow>
     distinct (map fst accs') \<and> set (map fst accs') = set (map fst accs) \<union> account ` set txns
     \<and> (\<forall>k v. (k, v) \<in> set accs' \<longrightarrow>
           (k, v) \<in> set accs
           \<or> v = \<lparr>txn_ctr = 0, txn_skip = 0, txn_processed = 0, acc_overrides = 0\<rparr>)"
proof (induction txns arbitrary: accs mn mx)
  case Nil
  then show ?case by simp
next
  case (Cons t ts)
  from Cons.prems(1) obtain d where d: "py_int (dtposted t) = Some d"
    by (auto simp add: Let_def split: option.splits)
  let ?accs = "if account t \<in> fst ` set accs then accs
               else accs @ [(account t,
                 \<lparr>txn_ctr = 0, txn_skip = 0, txn_processed = 0, acc_overrides = 0\<rparr>)]"
  from Cons.prems(1) d
  have g: "gather_accounts ts ?accs (if d < mn then d else mn) (if d > mx then d else mx)
             = Inr (accs', mn', mx')"
    by (simp add: Let_def)
  have dist: "distinct (map fst ?accs)"
    using Cons.prems(2) by auto
  from Cons.IH [OF g dist] show ?case
    by (auto split: if_splits)
qed

lemma gather_accounts_total:
  "(\<forall>t \<in> set txns. py_int (dtposted t) \<noteq> None) \<Longrightarrow>
     \<exists>res. gather_accounts txns accs mn mx = Inr res"
  by (induction txns arbitrary: accs mn mx) (auto simp add: Let_def)

lemma run_total:
  "(\<forall>t \<in> set txns. py_int (dtposted t) \<noteq> None) \<Longrightarrow> \<exists>w. run hb c txns = Inr w"
  using gather_accounts_total [of txns "[]" 999999999 0]
  by (auto simp add: run_def Let_def)

lemma run_closed_form:
  assumes "run hb c txns = Inr w"
  shows "distinct (map fst (accounts w))"
    and "set (map fst (accounts w)) = account ` set txns"
    and "(a, r) \<in> set (accounts w) \<Longrightarrow>
           r = tally hb (transfer_of c {} (map fst (accounts w)) a) a txns
                 \<lparr>txn_ctr = 0, txn_skip = 0, txn_processed = 0, acc_overrides = 0\<rparr>"
    and "emitted (ofxfile w) =
           concat (map (\<lambda>k. [t \<leftarrow> txns. account t = k
                                \<and> keep hb (transfer_of c {} (map fst (accounts w)) k) t])
                     (map fst (accounts w)))"
proof -
  from assms obtain accs mn mx where
    g: "gather_accounts txns [] 999999999 0 = Inr (accs, mn, mx)"
    and w: "w = (account_loop hb c txns mn mx (map fst accs)
                   \<lparr>accounts = accs, processed_accounts = {}, ofxfile = [MessageHeader]\<rparr>)
                \<lparr>ofxfile := ofxfile (account_loop hb c txns mn mx (map fst accs)
                   \<lparr>accounts = accs, processed_accounts = {}, ofxfile = [MessageHeader]\<rparr>)
                   @ [MessageFooter]\<rparr>"
    by (auto simp add: run_def Let_def split: sum.splits)
  from gather_accounts_keys [OF g] have
    dist: "distinct (map fst accs)" and keys: "set (map fst accs) = account ` set txns"
    and new: "\<And>k v. (k, v) \<in> set accs \<Longrightarrow>
                v = \<lparr>txn_ctr = 0, txn_skip = 0, txn_processed = 0, acc_overrides = 0\<rparr>"
    by auto
  have k: "map fst (accounts w) = map fst accs"
    by (simp add: w account_loop_keys)
  show "distinct (map fst (accounts w))" using dist k by simp
  show "set (map fst (accounts w)) = account ` set txns" using keys k by simp
  show "emitted (ofxfile w) =
           concat (map (\<lambda>k. [t \<leftarrow> txns. account t = k
                                \<and> keep hb (transfer_of c {} (map fst (accounts w)) k) t])
                     (map fst (accounts w)))"
    unfolding k by (simp add: w account_loop_emitted [OF dist] emitted_append)
  show "r = tally hb (transfer_of c {} (map fst (accounts w)) a) a txns
                 \<lparr>txn_ctr = 0, txn_skip = 0, txn_processed = 0, acc_overrides = 0\<rparr>"
    if "(a, r) \<in> set (accounts w)"
  proof -
    from that dist k have "map_of (accounts w) a = Some r"
      by (metis map_of_is_SomeI)
    moreover have "a \<in> set (map fst accs)"
      using that k by (metis fst_conv image_eqI set_map)
    moreover then obtain v where "map_of accs a = Some v" "(a, v) \<in> set accs"
      using dist by (metis (no_types) map_of_eq_None_iff map_of_SomeD not_Some_eq set_map)
    ultimately show ?thesis
      unfolding k using new [of a v]
      by (simp add: w account_loop_lookup [OF dist])
  qed
qed

lemma length_filter_split:
  "length [t \<leftarrow> ts. P t \<and> \<not> Q t] + length [t \<leftarrow> ts. P t \<and> Q t] = length [t \<leftarrow> ts. P t]"
  by (induction ts) auto

lemma run_emitted_iff:
  assumes "run hb c txns = Inr w"
  shows "t \<in> set (emitted (ofxfile w)) \<longleftrightarrow>
           t \<in> set txns \<and> keep hb (transfer_of c {} (map fst (accounts w)) (account t)) t"
proof -
  let ?ks = "map fst (accounts w)"
  have "t \<in> set (emitted (ofxfile w)) \<longleftrightarrow>
          (\<exists>k \<in> set ?ks. t \<in> set txns \<and> account t = k \<and> keep hb (transfer_of c {} ?ks k) t)"
    by (subst run_closed_form(4) [OF assms]) auto
  also have "\<dots> \<longleftrightarrow> account t \<in> set ?ks \<and> t \<in> set txns
                        \<and> keep hb (transfer_of c {} ?ks (account t)) t"
    by blast
  also have "\<dots> \<longleftrightarrow> t \<in> set txns \<and> keep hb (transfer_of c {} ?ks (account t)) t"
    unfolding run_closed_form(2) [OF assms] by blast
  finally show ?thesis .
qed

lemma position_before:
  assumes "a \<in> set xs" and "position xs a < position xs b"
  shows "a \<in> set (takeWhile (\<lambda>x. x \<noteq> b) xs)" and "b \<notin> set (takeWhile (\<lambda>x. x \<noteq> a) xs)"
  using assms unfolding position_def
  by (induction xs) (auto split: if_splits)

text \<open>
  C4. In single-leg mode, when the input holds both legs of a transfer between two accounts
  \<open>A\<close> and \<open>B\<close> of the configured ordering, \<open>A\<close> at the earlier position, the run
  writes the leg posted on \<open>A\<close> and does not write the leg posted on \<open>B\<close>, in whichever
  order the two accounts are first seen in the input.
\<close>

theorem single_leg_transfer:
  assumes "run False c txns = Inr w"
    and "t1 \<in> set txns" and "t2 \<in> set txns"
    and "account t1 = A" and "accountto t1 = B"
    and "account t2 = B" and "accountto t2 = A"
    and "A \<in> set (config_accounts c)" and "B \<in> set (config_accounts c)"
    and "position (config_accounts c) A < position (config_accounts c) B"
  shows "t1 \<in> set (emitted (ofxfile w)) \<and> t2 \<notin> set (emitted (ofxfile w))"
  using assms(2-9) position_before [OF assms(8) assms(10)]
  by (auto simp add: run_emitted_iff [OF assms(1)] keep_def gather_transfer_accounts_eq)

text \<open>
  C10. After a run, in either mode, the accounts of the counter table are the accounts of
  the input transactions, and for each of them the total counter is the skip counter plus
  the processed counter and is the number of input transactions of that account.
\<close>

theorem run_counters_identity:
  assumes "run hb c txns = Inr w"
  shows "fst ` set (accounts w) = account ` set txns
       \<and> (\<forall>(a, r) \<in> set (accounts w).
             txn_ctr r = txn_skip r + txn_processed r
             \<and> txn_ctr r = int (length [t \<leftarrow> txns. account t = a]))"
proof -
  have "txn_ctr r = txn_skip r + txn_processed r
        \<and> txn_ctr r = int (length [t \<leftarrow> txns. account t = a])"
    if "(a, r) \<in> set (accounts w)" for a r
    using length_filter_split [of "\<lambda>t. account t = a" _ txns]
    by (subst (1 2 3 4) run_closed_form(3) [OF assms that]) (simp add: tally_def flip: of_nat_add)
  then show ?thesis
    using run_closed_form(2) [OF assms] by auto
qed

lemma sum_list_indicator:
  "distinct ks \<Longrightarrow> x \<in> set ks \<Longrightarrow> (\<Sum>k\<leftarrow>ks. if x = k then 1 else 0) = (1::nat)"
  by (induction ks) (auto simp add: sum_list_0)

lemma sum_length_filter_keys:
  "distinct ks \<Longrightarrow> f ` set ts \<subseteq> set ks \<Longrightarrow>
     (\<Sum>k\<leftarrow>ks. length [t \<leftarrow> ts. f t = k]) = length ts"
proof (induction ts)
  case Nil
  show ?case by (simp add: sum_list_0)
next
  case (Cons t ts)
  have "(\<Sum>k\<leftarrow>ks. length [t' \<leftarrow> t # ts. f t' = k])
      = (\<Sum>k\<leftarrow>ks. (if f t = k then 1 else 0) + length [t' \<leftarrow> ts. f t' = k])"
    by (intro arg_cong [where f = sum_list] map_cong refl) simp
  also have "\<dots> = (\<Sum>k\<leftarrow>ks. if f t = k then 1 else 0) + (\<Sum>k\<leftarrow>ks. length [t' \<leftarrow> ts. f t' = k])"
    by (simp add: sum_list_addf)
  finally show ?case
    using Cons by (simp add: sum_list_indicator)
qed

lemma count_list_concat_keys:
  "distinct ks \<Longrightarrow> f x \<in> set ks \<Longrightarrow>
     count_list (concat (map (\<lambda>k. [t \<leftarrow> ts. f t = k]) ks)) x = count_list ts x"
proof (induction ks)
  case Nil
  then show ?case by simp
next
  case (Cons k ks)
  have none: "count_list [t \<leftarrow> ts. f t = k'] x = 0" if "f x \<noteq> k'" for k'
    using that by (induction ts) auto
  have all: "count_list [t \<leftarrow> ts. f t = f x] x = count_list ts x"
    by (induction ts) auto
  have rest: "count_list (concat (map (\<lambda>k. [t \<leftarrow> ts. f t = k]) ks')) x = 0" if "f x \<notin> set ks'" for ks'
    using that by (induction ks') (auto simp add: none)
  show ?case
  proof (cases "f x = k")
    case True
    with Cons.prems have "f x \<notin> set ks" by auto
    from rest [OF this] all True show ?thesis by simp
  next
    case False
    with Cons show ?thesis by (simp add: none)
  qed
qed

text \<open>
  C6. In dual-leg mode a run skips nothing: the skip counter of every account is 0, every
  input transaction is written as often as it occurs in the input, and the processed
  counters add up to the number of transactions read.
\<close>

theorem dual_leg_no_suppression:
  assumes "run True c txns = Inr w"
  shows "(\<forall>(a, r) \<in> set (accounts w). txn_skip r = 0)
       \<and> (\<forall>t \<in> set txns. count_list (emitted (ofxfile w)) t = count_list txns t)
       \<and> length (emitted (ofxfile w)) = length txns
       \<and> (\<Sum>(a, r)\<leftarrow>accounts w. txn_processed r) = int (length txns)"
proof -
  let ?ks = "map fst (accounts w)"
  have d: "distinct ?ks" and s: "set ?ks = account ` set txns"
    by (rule run_closed_form [OF assms])+
  have e: "emitted (ofxfile w) = concat (map (\<lambda>k. [t \<leftarrow> txns. account t = k]) ?ks)"
    by (subst run_closed_form(4) [OF assms]) (simp add: keep_def)
  have skip: "txn_skip r = 0" and proc: "txn_processed r = int (length [t \<leftarrow> txns. account t = a])"
    if "(a, r) \<in> set (accounts w)" for a r
    by (subst run_closed_form(3) [OF assms that], simp add: tally_def keep_def)+
  have "(\<Sum>(a, r)\<leftarrow>accounts w. txn_processed r)
      = (\<Sum>(a, r)\<leftarrow>accounts w. int (length [t \<leftarrow> txns. account t = a]))"
    by (intro arg_cong [where f = sum_list] map_cong refl) (auto simp add: proc)
  also have "\<dots> = int (\<Sum>k\<leftarrow>?ks. length [t \<leftarrow> txns. account t = k])"
  proof -
    have "(\<Sum>p\<leftarrow>xs. int (g (fst p))) = int (\<Sum>k\<leftarrow>map fst xs. g k)"
      for xs :: "(string \<times> account_rec) list" and g :: "string \<Rightarrow> nat"
      by (induction xs) simp_all
    from this [of "\<lambda>k. length [t \<leftarrow> txns. account t = k]" "accounts w"]
    show ?thesis by (simp add: case_prod_unfold)
  qed
  also have "\<dots> = int (length txns)"
    using sum_length_filter_keys [OF d, of account txns] s by simp
  finally have total: "(\<Sum>(a, r)\<leftarrow>accounts w. txn_processed r) = int (length txns)" .
  have len: "length (emitted (ofxfile w)) = length txns"
    using sum_length_filter_keys [OF d, of account txns] s
    by (simp add: e length_concat comp_def)
  have cnt: "count_list (emitted (ofxfile w)) t = count_list txns t" if "t \<in> set txns" for t
    unfolding e using that s by (intro count_list_concat_keys [OF d]) auto
  show ?thesis using skip total len cnt by auto
qed

lemmas int_eval = py_int_def TransformDecimalAndSpaceToASCII_def c_isspace_def is_digit_def
  digits_val_def

lemmas run_eval = run_def Let_def int_eval adjust_def gather_transfer_accounts_def
  main_accounts_def example_txn_def

lemma ex_run:
  "run False example_cfg [example_txn ''B'' ''A'' ''f1'', example_txn ''A'' ''B'' ''f2'']
     = Inr \<lparr>accounts = [(''B'', \<lparr>txn_ctr = 1, txn_skip = 1, txn_processed = 0, acc_overrides = 0\<rparr>),
                         (''A'', \<lparr>txn_ctr = 1, txn_skip = 0, txn_processed = 1, acc_overrides = 0\<rparr>)],
            processed_accounts = {''A'', ''B''},
            ofxfile = [MessageHeader, AccountStart ''B'' 20230105 20230105, AccountEnd,
                       AccountStart ''A'' 20230105 20230105,
                       Transaction (example_txn ''A'' ''B'' ''f2''), AccountEnd, MessageFooter]\<rparr>"
  by (simp add: run_eval example_cfg_def insert_commute)

theorem single_leg_transfer_witness:
  "(case run False example_cfg [example_txn ''B'' ''A'' ''f1'', example_txn ''A'' ''B'' ''f2''] of
      Inl e \<Rightarrow> False
    | Inr w \<Rightarrow> example_txn ''A'' ''B'' ''f2'' \<in> set (emitted (ofxfile w))
             \<and> example_txn ''B'' ''A'' ''f1'' \<notin> set (emitted (ofxfile w)))"
proof -
  note w = single_leg_transfer [OF ex_run, of "example_txn ''A'' ''B'' ''f2''"
          "example_txn ''B'' ''A'' ''f1''" "''A''" "''B''"]
  show ?thesis
    unfolding ex_run using w by (simp add: example_cfg_def position_def example_txn_def)
qed

lemma ex_run_dual:
  "run True example_cfg [example_txn ''B'' ''A'' ''f1'', example_txn ''A'' ''B'' ''f2'']
     = Inr \<lparr>accounts = [(''B'', \<lparr>txn_ctr = 1, txn_skip = 0, txn_processed = 1, acc_overrides = 0\<rparr>),
                         (''A'', \<lparr>txn_ctr = 1, txn_skip = 0, txn_processed = 1, acc_overrides = 0\<rparr>)],
            processed_accounts = {''A'', ''B''},
            ofxfile = [MessageHeader, AccountStart ''B'' 20230105 20230105,
                       Transaction (example_txn ''B'' ''A'' ''f1''), AccountEnd,
                       AccountStart ''A'' 20230105 20230105,
                       Transaction (example_txn ''A'' ''B'' ''f2''), AccountEnd, MessageFooter]\<rparr>"
  by (simp add: run_eval example_cfg_def insert_commute)

theorem run_counters_identity_witness:
  "(case run False example_cfg [example_txn ''B'' ''A'' ''f1'', example_txn ''A'' ''B'' ''f2''] of
      Inl e \<Rightarrow> False
    | Inr w \<Rightarrow> fst ` set (accounts w) = {''A'', ''B''}
             \<and> (\<forall>(a, r) \<in> set (accounts w).
                   txn_ctr r = txn_skip r + txn_processed r \<and> txn_ctr r = 1))"
proof -
  note w = run_counters_identity [OF ex_run]
  show ?thesis
    unfolding ex_run using w by (simp add: example_txn_def insert_commute)
qed

theorem dual_leg_no_suppression_witness:
  "(case run True example_cfg [example_txn ''B'' ''A'' ''f1'', example_txn ''A'' ''B'' ''f2''] of
      Inl e \<Rightarrow> False
    | Inr w \<Rightarrow> (\<forall>(a, r) \<in> set (accounts w). txn_skip r = 0)
             \<and> emitted (ofxfile w)
                 = [example_txn ''B'' ''A'' ''f1'', example_txn ''A'' ''B'' ''f2'']
             \<and> (\<Sum>(a, r)\<leftarrow>accounts w. txn_processed r) = 2)"
proof -
  note w = dual_leg_no_suppression [OF ex_run_dual]
  show ?thesis
    unfolding ex_run_dual using w by simp
qed

subsection \<open>Identifiers that collide\<close>

lemma py_float_1: "py_float ''1'' = Some (Fin False 1 0)"
  by (simp add: float_eval)

lemma create_ofx_example:
  "create_ofx False [''force_date_posted'' \<mapsto> []] d (example_row ''A'' nr) =
     (case map_fitid d ''A'' nr ''1'' ''20180105'' of
        Inl e \<Rightarrow> Inl e
      | Inr (fid, d') \<Rightarrow>
          Inr (\<lparr>account = ''A'', trntype = ''CREDIT'', dtposted = ''20180105'', trnamt = ''1'',
                fitid = fid, name = [], accountto = [], memo = [], nr_overrides = 0\<rparr>, d'))"
  by (simp add: create_ofx_def example_row_def empty_row_def map_account_def
        map_transaction_type_def map_date_posted_def map_amount_def map_account_to_def
        map_memo_name_def replace_chr_def py_strip_def strip_with_def split: sum.splits)

lemma map_fitid_example:
  "nr \<noteq> [] \<Longrightarrow> map_fitid d ''A'' nr ''1'' ''20180105'' =
     Inr ((''A'' @ nr) @ str_int (next_sequence d (''A'' @ nr)),
          d((''A'' @ nr) \<mapsto> next_sequence d (''A'' @ nr)))"
  by (simp add: map_fitid_def py_float_1 fitid_key_def next_sequence_def Let_def)

lemma str_int_small: "str_int 0 = ''0''" "str_int 10 = ''10''"
  by (simp_all add: str_int_def digit_chr_def)

text \<open>
  C1. The fitids of one run are not pairwise distinct for every input. \<open>map_fitid\<close> appends
  the sequence to the key without a separator, so the eleventh row of key \<open>A1\<close> (sequence
  10) and the first row of key \<open>A11\<close> (sequence 0) both get the fitid \<open>A110\<close>: reading
  \<open>colliding_rows\<close> succeeds, gives twelve transactions, and the last two have the same
  fitid.
\<close>

theorem fitid_collision:
  "(case CsvFile_init False [''force_date_posted'' \<mapsto> []] colliding_rows of
      Inl e \<Rightarrow> False
    | Inr txns \<Rightarrow>
        length txns = 12 \<and> fitid (txns ! 10) = ''A110'' \<and> fitid (txns ! 11) = ''A110'')"
  by (simp add: CsvFile_init_def colliding_rows_def create_ofx_example map_fitid_example
        next_sequence_def str_int_small)

subsection \<open>What \<open>float\<close> rejects\<close>

lemma bad_char_props:
  assumes "bad_char c"
  shows "of_char c < (127::nat)" "c \<noteq> CHR ''_''" "\<not> c_isspace c" "\<not> num_char c"
    "to_lower c = c"
  using assms by (auto simp add: bad_char_def c_isspace_def num_char_def is_digit_def to_lower_def)

lemma transform_tail_bad:
  "\<exists>c \<in> set s. bad_char c \<Longrightarrow> \<exists>c \<in> set (transform_tail s). bad_char c"
proof (induction s)
  case Nil
  then show ?case by simp
next
  case (Cons a s)
  show ?case
  proof (cases "of_char a < (127::nat)")
    case True
    with Cons show ?thesis by auto
  next
    case False
    then have "\<not> bad_char a" using bad_char_props(1) by blast
    with Cons False show ?thesis by (auto simp add: bad_char_def)
  qed
qed

lemma Transform_bad:
  "\<exists>c \<in> set s. bad_char c \<Longrightarrow> \<exists>c \<in> set (TransformDecimalAndSpaceToASCII s). bad_char c"
  using transform_tail_bad by (simp add: TransformDecimalAndSpaceToASCII_def)

lemma underscores_loop_filter:
  "underscores_loop prev s = Some u \<Longrightarrow> u = filter (\<lambda>c. c \<noteq> CHR ''_'') s"
  by (induction s arbitrary: prev u) (auto split: if_splits)

lemma underscores_bad:
  assumes "string_to_number_with_underscores s = Some u" and "\<exists>c \<in> set s. bad_char c"
  shows "\<exists>c \<in> set u. bad_char c"
proof -
  have same: "filter (\<lambda>c. c \<noteq> CHR ''_'') s = s" if "CHR ''_'' \<notin> set s"
    using that by (induction s) auto
  have "u = filter (\<lambda>c. c \<noteq> CHR ''_'') s"
  proof (cases "CHR ''_'' \<in> set s")
    case True
    with assms(1) show ?thesis
      by (simp add: string_to_number_with_underscores_def underscores_loop_filter)
  next
    case False
    with assms(1) same show ?thesis
      by (simp add: string_to_number_with_underscores_def)
  qed
  with assms(2) show ?thesis using bad_char_props(2) by auto
qed

lemma dropWhile_keeps: "c \<in> set s \<Longrightarrow> \<not> sp c \<Longrightarrow> c \<in> set (dropWhile sp s)"
  by (induction s) auto

lemma strip_with_keeps: "c \<in> set s \<Longrightarrow> \<not> sp c \<Longrightarrow> c \<in> set (strip_with sp s)"
  by (simp add: strip_with_def dropWhile_keeps)

lemma parse_sign_chars: "parse_sign s = (n, s1) \<Longrightarrow> set s \<subseteq> set s1 \<union> {CHR ''+'', CHR ''-''}"
  by (cases s) (auto split: if_splits)

lemma all_digits_num: "dropWhile is_digit s = [] \<Longrightarrow> \<forall>c \<in> set s. num_char c"
  by (auto simp add: dropWhile_eq_Nil_conv num_char_def)

lemma parse_exponent_chars:
  assumes "parse_exponent s = (e, [])"
  shows "\<forall>c \<in> set s. num_char c"
proof (cases s)
  case Nil
  then show ?thesis by simp
next
  case (Cons c t)
  obtain esign t1 where ps: "parse_sign t = (esign, t1)" by (cases "parse_sign t")
  from assms Cons ps have c: "c = CHR ''e'' \<or> c = CHR ''E''" and d: "dropWhile is_digit t1 = []"
    by (auto simp add: parse_exponent_def Let_def split: if_splits)
  from parse_sign_chars [OF ps] all_digits_num [OF d] have "\<forall>c \<in> set t. num_char c"
    by (auto simp add: num_char_def)
  with c Cons show ?thesis by (auto simp add: num_char_def)
qed

lemma dg_strtod_chars:
  assumes "dg_strtod s = Some (x, [])"
  shows "\<forall>c \<in> set s. num_char c"
proof -
  obtain neg s1 where ps: "parse_sign s = (neg, s1)" by (cases "parse_sign s")
  let ?r1 = "dropWhile is_digit s1"
  have s1: "set s1 = set (takeWhile is_digit s1) \<union> set ?r1"
    by (metis set_append takeWhile_dropWhile_id)
  have ip: "\<forall>c \<in> set (takeWhile is_digit s1). num_char c"
    by (auto simp add: num_char_def dest: set_takeWhileD)
  have r1: "\<forall>c \<in> set ?r1. num_char c"
  proof (cases ?r1)
    case Nil
    show ?thesis unfolding Nil by simp
  next
    case (Cons c t)
    show ?thesis
    proof (cases "c = CHR ''.''")
      case True
      with assms ps Cons obtain e where "parse_exponent (dropWhile is_digit t) = (e, [])"
        by (auto simp add: dg_strtod_def Let_def split: if_splits prod.splits)
      from parse_exponent_chars [OF this]
      have "\<forall>c \<in> set (dropWhile is_digit t). num_char c" .
      moreover have "\<forall>c \<in> set (takeWhile is_digit t). num_char c"
        by (auto simp add: num_char_def dest: set_takeWhileD)
      moreover have "set t = set (takeWhile is_digit t) \<union> set (dropWhile is_digit t)"
        by (metis set_append takeWhile_dropWhile_id)
      ultimately show ?thesis using Cons True by (auto simp add: num_char_def)
    next
      case False
      with assms ps Cons obtain e where "parse_exponent ?r1 = (e, [])"
        by (auto simp add: dg_strtod_def Let_def split: if_splits prod.splits)
      from parse_exponent_chars [OF this] show ?thesis .
    qed
  qed
  from parse_sign_chars [OF ps] s1 ip r1 show ?thesis
    by (auto simp add: num_char_def)
qed

lemma match_chars:
  "case_insensitive_match s t \<Longrightarrow> n = length t \<Longrightarrow>
     \<forall>c \<in> set (take n s). to_lower c \<in> set t"
  unfolding case_insensitive_match_def by (metis image_eqI set_map)

lemma drop_Nil_take: "drop n s = [] \<Longrightarrow> take n s = s"
  by simp

lemma parse_inf_or_nan_chars:
  assumes "parse_inf_or_nan s = Some (x, [])"
  shows "\<forall>c \<in> set s. \<not> bad_char c"
proof -
  obtain neg s1 where ps: "parse_sign s = (neg, s1)" by (cases "parse_sign s")
  have "\<forall>c \<in> set s1. to_lower c \<in> set ''infinityan''"
  proof (cases "case_insensitive_match s1 ''inf''")
    case True
    have m1: "\<forall>c \<in> set (take 3 s1). to_lower c \<in> set ''inf''"
      by (rule match_chars [OF True]) simp
    show ?thesis
    proof (cases "case_insensitive_match (drop 3 s1) ''inity''")
      case True
      with assms ps \<open>case_insensitive_match s1 ''inf''\<close> have "drop 5 (drop 3 s1) = []"
        by (simp add: parse_inf_or_nan_def Let_def)
      then have "take 5 (drop 3 s1) = drop 3 s1" by simp
      moreover have "\<forall>c \<in> set (take 5 (drop 3 s1)). to_lower c \<in> set ''inity''"
        by (rule match_chars [OF True]) simp
      ultimately have "\<forall>c \<in> set (drop 3 s1). to_lower c \<in> set ''inity''"
        by simp
      moreover have "set s1 = set (take 3 s1) \<union> set (drop 3 s1)"
        by (metis append_take_drop_id set_append)
      ultimately show ?thesis using m1 by auto
    next
      case False
      with assms ps \<open>case_insensitive_match s1 ''inf''\<close> have "drop 3 s1 = []"
        by (simp add: parse_inf_or_nan_def Let_def)
      then have "take 3 s1 = s1" by simp
      with m1 show ?thesis by auto
    qed
  next
    case False
    with assms ps have m: "case_insensitive_match s1 ''nan''" and "drop 3 s1 = []"
      by (auto simp add: parse_inf_or_nan_def Let_def split: if_splits)
    then have "take 3 s1 = s1" by simp
    moreover have "\<forall>c \<in> set (take 3 s1). to_lower c \<in> set ''nan''"
      by (rule match_chars [OF m]) simp
    ultimately show ?thesis by auto
  qed
  then have "\<forall>c \<in> set s1. \<not> bad_char c"
    using bad_char_props(5) by (fastforce simp add: bad_char_def)
  with parse_sign_chars [OF ps] show ?thesis
    by (auto simp add: bad_char_def)
qed

lemma py_float_bad_char:
  assumes "\<exists>c \<in> set s. bad_char c"
  shows "py_float s = None"
proof (cases "string_to_number_with_underscores (TransformDecimalAndSpaceToASCII s)")
  case None
  then show ?thesis by (simp add: py_float_def)
next
  case (Some u)
  from underscores_bad [OF Some Transform_bad [OF assms]]
  obtain c where c: "c \<in> set u" "bad_char c" by blast
  then have in_strip: "c \<in> set (strip_with c_isspace u)"
    using bad_char_props(3) by (simp add: strip_with_keeps)
  have "dg_strtod (strip_with c_isspace u) \<noteq> Some (x, [])" for x
    using dg_strtod_chars in_strip c(2) bad_char_props(4) by blast
  moreover have "parse_inf_or_nan (strip_with c_isspace u) \<noteq> Some (x, [])" for x
    using parse_inf_or_nan_chars in_strip c(2) by blast
  ultimately show ?thesis
    by (auto simp add: py_float_def Some Let_def split: option.splits)
qed

lemma py_float_comma: "CHR '','' \<in> set s \<Longrightarrow> py_float s = None"
  by (rule py_float_bad_char) (auto simp add: bad_char_def)

subsection \<open>Amounts that \<open>float\<close> accepts, and the comma preference\<close>

lemma is_digit_props:
  assumes "is_digit c"
  shows "of_char c < (128::nat)" "c \<noteq> CHR ''_''" "\<not> c_isspace c" "\<not> is_separator c"
    "c \<noteq> CHR ''-''" "c \<noteq> CHR ''+''" "c \<noteq> CHR '',''" "c \<noteq> CHR ''.''"
  using assms by (auto simp add: is_digit_def c_isspace_def is_separator_def)

lemma plain_char:
  assumes "is_digit c \<or> c = CHR ''+'' \<or> c = CHR ''-'' \<or> c = CHR ''.''"
  shows "of_char c < (128::nat) \<and> c \<noteq> CHR ''_'' \<and> \<not> c_isspace c"
proof -
  from assms consider "is_digit c" | "c = CHR ''+''" | "c = CHR ''-''" | "c = CHR ''.''"
    by blast
  then show ?thesis
  proof cases
    case 1
    then show ?thesis using is_digit_props(1-3) by blast
  next
    case 2
    then show ?thesis by (simp add: c_isspace_def)
  next
    case 3
    then show ?thesis by (simp add: c_isspace_def)
  next
    case 4
    then show ?thesis by (simp add: c_isspace_def)
  qed
qed

lemma point_not_digit: "\<not> is_digit (CHR ''.'')"
  by (simp add: is_digit_def)

lemma parse_sign_split:
  "\<exists>sg. s = sg @ snd (parse_sign s) \<and> (sg = [] \<or> sg = ''+'' \<or> sg = ''-'')"
  by (cases s) simp_all

lemma wf_amount_decompose:
  assumes "wf_amount s"
  obtains sg ip fr where "s = sg @ ip @ fr" and "sg = [] \<or> sg = ''+'' \<or> sg = ''-''"
    and "ip \<noteq> []" and "\<forall>c \<in> set ip. is_digit c"
    and "fr = [] \<or> (\<exists>sep ds. fr = sep # ds \<and> is_separator sep \<and> ds \<noteq> []
                              \<and> (\<forall>c \<in> set ds. is_digit c))"
proof -
  let ?body = "snd (parse_sign s)"
  let ?ip = "takeWhile is_digit ?body" and ?fr = "dropWhile is_digit ?body"
  from parse_sign_split [of s] obtain sg
    where s0: "s = sg @ ?body" and sg: "sg = [] \<or> sg = ''+'' \<or> sg = ''-''"
    by blast
  have "?body = ?ip @ ?fr" by simp
  with s0 have s: "s = sg @ ?ip @ ?fr" by simp
  from assms have ip: "?ip \<noteq> []"
    by (simp add: wf_amount_def Let_def)
  from assms have fr0: "case ?fr of [] \<Rightarrow> True
                        | sep # ds \<Rightarrow> is_separator sep \<and> ds \<noteq> [] \<and> list_all is_digit ds"
    by (simp add: wf_amount_def Let_def)
  have fr: "?fr = [] \<or> (\<exists>sep ds. ?fr = sep # ds \<and> is_separator sep \<and> ds \<noteq> []
                              \<and> (\<forall>c \<in> set ds. is_digit c))"
  proof (cases ?fr)
    case Nil
    then show ?thesis by simp
  next
    case (Cons sep ds)
    with fr0 show ?thesis by (simp add: list_all_iff)
  qed
  have digs: "\<forall>c \<in> set ?ip. is_digit c" by (auto dest: set_takeWhileD)
  show ?thesis by (rule that [OF s sg ip digs fr])
qed

lemma dropWhile_none: "\<forall>c \<in> set xs. \<not> P c \<Longrightarrow> dropWhile P xs = xs"
  by (cases xs) simp_all

lemma parse_sign_digits:
  assumes "sg = [] \<or> sg = ''+'' \<or> sg = ''-''" and "is_digit d"
  shows "parse_sign (sg @ d # rest) = (sg = ''-'', d # rest)"
proof -
  from assms(2) have "d \<noteq> CHR ''-''" "d \<noteq> CHR ''+''"
    by (rule is_digit_props)+
  with assms(1) show ?thesis by (elim disjE) simp_all
qed

lemma py_float_plain:
  assumes s: "s = sg @ ip @ fr" and sg: "sg = [] \<or> sg = ''+'' \<or> sg = ''-''"
    and ip: "ip \<noteq> []" "\<forall>c \<in> set ip. is_digit c"
    and fr: "fr = [] \<or> (\<exists>ds. fr = CHR ''.'' # ds \<and> ds \<noteq> [] \<and> (\<forall>c \<in> set ds. is_digit c))"
  shows "\<exists>x. py_float s = Some x"
proof -
  have sgc: "\<forall>c \<in> set sg. c = CHR ''+'' \<or> c = CHR ''-''"
    using sg by (elim disjE) simp_all
  have frc: "\<forall>c \<in> set fr. is_digit c \<or> c = CHR ''.''"
    using fr by (elim disjE exE conjE) simp_all
  have "\<forall>c \<in> set s. is_digit c \<or> c = CHR ''+'' \<or> c = CHR ''-'' \<or> c = CHR ''.''"
    unfolding s using sgc ip(2) frc by (simp add: ball_Un) blast
  then have chars: "\<forall>c \<in> set s. of_char c < (128::nat) \<and> c \<noteq> CHR ''_'' \<and> \<not> c_isspace c"
    using plain_char by blast
  then have t: "TransformDecimalAndSpaceToASCII s = s"
    by (simp add: TransformDecimalAndSpaceToASCII_def)
  have "CHR ''_'' \<notin> set s" using chars by blast
  then have u: "string_to_number_with_underscores s = Some s"
    by (simp add: string_to_number_with_underscores_def)
  have nosp: "\<forall>c \<in> set s. \<not> c_isspace c" using chars by blast
  then have "\<forall>c \<in> set (rev s). \<not> c_isspace c" by simp
  then have st: "strip_with c_isspace s = s"
    using nosp by (simp add: strip_with_def dropWhile_none)
  obtain d ip' where ipc: "ip = d # ip'" using ip(1) by (cases ip) simp_all
  with ip(2) have d: "is_digit d" by simp
  have ps: "parse_sign s = (sg = ''-'', ip @ fr)"
    unfolding s ipc using parse_sign_digits [OF sg d] by simp
  have tw: "takeWhile is_digit (ip @ fr) = ip"
    using fr
  proof
    assume "fr = []"
    with ip(2) show ?thesis by (simp add: takeWhile_eq_all_conv)
  next
    assume "\<exists>ds. fr = CHR ''.'' # ds \<and> ds \<noteq> [] \<and> (\<forall>c \<in> set ds. is_digit c)"
    then obtain ds where "fr = CHR ''.'' # ds" by blast
    with ip(2) point_not_digit show ?thesis by (simp add: takeWhile_append2)
  qed
  have dw: "dropWhile is_digit (ip @ fr) = fr"
    using fr
  proof
    assume "fr = []"
    with ip(2) show ?thesis by (simp add: dropWhile_eq_Nil_conv)
  next
    assume "\<exists>ds. fr = CHR ''.'' # ds \<and> ds \<noteq> [] \<and> (\<forall>c \<in> set ds. is_digit c)"
    then obtain ds where "fr = CHR ''.'' # ds" by blast
    with ip(2) point_not_digit show ?thesis by (simp add: dropWhile_append2)
  qed
  have "\<exists>x. dg_strtod s = Some (x, [])"
    using fr
  proof
    assume e: "fr = []"
    have tw': "takeWhile is_digit ip = ip" and dw': "dropWhile is_digit ip = []"
      using tw dw unfolding e by simp_all
    have ps': "parse_sign s = (sg = ''-'', ip)" using ps unfolding e by simp
    show ?thesis
      by (simp add: dg_strtod_def ps' tw' dw' ip(1) Let_def parse_exponent_def)
  next
    assume "\<exists>ds. fr = CHR ''.'' # ds \<and> ds \<noteq> [] \<and> (\<forall>c \<in> set ds. is_digit c)"
    then obtain ds where ds: "fr = CHR ''.'' # ds" "\<forall>c \<in> set ds. is_digit c" by blast
    then have "takeWhile is_digit ds = ds" "dropWhile is_digit ds = []"
      by (simp_all add: takeWhile_eq_all_conv)
    then have tw2: "takeWhile is_digit ds = ds" and dw2: "dropWhile is_digit ds = []"
      by simp_all
    have ps': "parse_sign s = (sg = ''-'', ip @ CHR ''.'' # ds)"
      using ps unfolding ds(1) .
    have tw': "takeWhile is_digit (ip @ CHR ''.'' # ds) = ip"
      and dw': "dropWhile is_digit (ip @ CHR ''.'' # ds) = CHR ''.'' # ds"
      using tw dw unfolding ds(1) .
    show ?thesis
      by (simp add: dg_strtod_def ps' tw' dw' tw2 dw2 ip(1) Let_def parse_exponent_def)
  qed
  then obtain x where "dg_strtod s = Some (x, [])" by blast
  then have "py_float s = Some x"
    by (simp add: py_float_def t u st)
  then show ?thesis by blast
qed

lemma map_no_char: "\<forall>c \<in> set xs. c \<noteq> a \<Longrightarrow> map (\<lambda>x. if x = a then b else x) xs = xs"
  by (induction xs) simp_all

lemma map_digits: "\<forall>c \<in> set xs. is_digit c \<Longrightarrow> map (\<lambda>x. if x = CHR '','' then b else x) xs = xs"
  using is_digit_props(7) by (intro map_no_char) blast

lemma wf_amount_point_parses:
  assumes "wf_amount s"
  shows "\<exists>x. py_float (replace_chr (CHR '','') ''.'' s) = Some x"
proof -
  from assms obtain sg ip fr where s: "s = sg @ ip @ fr"
    and sg: "sg = [] \<or> sg = ''+'' \<or> sg = ''-''"
    and ip: "ip \<noteq> []" "\<forall>c \<in> set ip. is_digit c"
    and fr: "fr = [] \<or> (\<exists>sep ds. fr = sep # ds \<and> is_separator sep \<and> ds \<noteq> []
                              \<and> (\<forall>c \<in> set ds. is_digit c))"
    by (rule wf_amount_decompose)
  let ?f = "\<lambda>x. if x = CHR '','' then CHR ''.'' else x"
  have msg: "map ?f sg = sg" using sg by (elim disjE) simp_all
  have m: "replace_chr (CHR '','') ''.'' s = sg @ ip @ map ?f fr"
    unfolding s by (simp add: replace_chr_single msg map_digits [OF ip(2)])
  have "map ?f fr = []
        \<or> (\<exists>ds. map ?f fr = CHR ''.'' # ds \<and> ds \<noteq> [] \<and> (\<forall>c \<in> set ds. is_digit c))"
    using fr
  proof
    assume "fr = []"
    then show ?thesis by simp
  next
    assume "\<exists>sep ds. fr = sep # ds \<and> is_separator sep \<and> ds \<noteq> [] \<and> (\<forall>c \<in> set ds. is_digit c)"
    then obtain sep ds where f: "fr = sep # ds" "is_separator sep" "ds \<noteq> []"
      "\<forall>c \<in> set ds. is_digit c" by blast
    from f(2) have "?f sep = CHR ''.''" by (auto simp add: is_separator_def)
    with f(1,3,4) have "map ?f fr = CHR ''.'' # ds" by (simp add: map_digits)
    with f(3,4) show ?thesis by simp
  qed
  from py_float_plain [OF m sg ip this] show ?thesis .
qed

lemma wf_amount_integer_parses:
  assumes "wf_amount s" and "\<not> has_separator s"
  shows "\<exists>x. py_float (replace_chr (CHR ''.'') '','' s) = Some x"
proof -
  from assms(1) obtain sg ip fr where s: "s = sg @ ip @ fr"
    and sg: "sg = [] \<or> sg = ''+'' \<or> sg = ''-''"
    and ip: "ip \<noteq> []" "\<forall>c \<in> set ip. is_digit c"
    and fr: "fr = [] \<or> (\<exists>sep ds. fr = sep # ds \<and> is_separator sep \<and> ds \<noteq> []
                              \<and> (\<forall>c \<in> set ds. is_digit c))"
    by (rule wf_amount_decompose)
  have fr': "fr = []"
    using fr
  proof
    assume "fr = []"
    then show ?thesis .
  next
    assume "\<exists>sep ds. fr = sep # ds \<and> is_separator sep \<and> ds \<noteq> [] \<and> (\<forall>c \<in> set ds. is_digit c)"
    then obtain sep ds where "fr = sep # ds" "is_separator sep" by blast
    then have "has_separator s" unfolding s by (simp add: has_separator_def)
    with assms(2) show ?thesis by simp
  qed
  have "\<forall>c \<in> set s. c \<noteq> CHR ''.''"
    using assms(2) by (auto simp add: has_separator_def is_separator_def)
  then have "replace_chr (CHR ''.'') '','' s = s"
    by (simp add: replace_chr_single map_no_char)
  then have m: "replace_chr (CHR ''.'') '','' s = sg @ ip @ fr" using s by simp
  have "fr = [] \<or> (\<exists>ds. fr = CHR ''.'' # ds \<and> ds \<noteq> [] \<and> (\<forall>c \<in> set ds. is_digit c))"
    using fr' by simp
  from py_float_plain [OF m sg ip this] show ?thesis .
qed

lemma comma_mapped_has_comma:
  "has_separator s \<Longrightarrow> CHR '','' \<in> set (replace_chr (CHR ''.'') '','' s)"
  by (auto simp add: replace_chr_single has_separator_def is_separator_def)

lemma map_fitid_ok_iff:
  "(\<exists>res. map_fitid d acc volgnr amt dtp = Inr res) \<longleftrightarrow> py_float amt \<noteq> None"
  by (cases "py_float amt") (simp_all add: map_fitid_def Let_def)

lemma create_ofx_float_error:
  assumes "py_float (snd (map_amount dc r ov)) = None"
  shows "\<exists>e. create_ofx dc ov d r = Inl e"
proof (cases "map_date_posted r ov")
  case (Inl e)
  then show ?thesis by (simp add: create_ofx_def case_prod_unfold Let_def)
next
  case (Inr p)
  with assms show ?thesis
    by (simp add: create_ofx_def case_prod_unfold Let_def map_fitid_def)
qed

lemma create_all_error:
  "r \<in> set rs \<Longrightarrow> (\<And>d. \<exists>e. create_ofx dc ov d r = Inl e) \<Longrightarrow>
     \<exists>e. create_all dc ov d rs = Inl e"
proof (induction rs arbitrary: d)
  case Nil
  then show ?case by simp
next
  case (Cons x rs)
  show ?case
  proof (cases "create_ofx dc ov d x")
    case (Inl e)
    then show ?thesis by simp
  next
    case (Inr p)
    obtain t d' where p: "p = (t, d')" by (cases p)
    from Cons.prems(1) Inr have "r \<in> set rs"
      using Cons.prems(2) [of d] by auto
    from Cons.IH [OF this Cons.prems(2), of d'] obtain e where "create_all dc ov d' rs = Inl e"
      by blast
    with Inr p show ?thesis by simp
  qed
qed

lemma main_program_float_error:
  assumes "r \<in> set (drop 1 rows)" and "\<And>ov. py_float (snd (map_amount dc r ov)) = None"
  shows "\<exists>e. main_program upper cfgfile dc hb rows = Inl e"
proof (cases "Cfg_init upper cfgfile")
  case (Inl e)
  then show ?thesis by (simp add: main_program_def)
next
  case (Inr c)
  from create_all_error [OF assms(1) create_ofx_float_error [OF assms(2)]]
  obtain e where "CsvFile_init dc (config_overrides c) rows = Inl e"
    unfolding CsvFile_init_def by blast
  with Inr show ?thesis by (simp add: main_program_def)
qed

text \<open>
  C9. Under the decimal-comma preference the mapped amount of every record whose amount has
  a separator contains a comma, \<open>float\<close> rejects it, \<open>map_fitid\<close> raises ValueError and a
  run that reads the record fails. For a well-formed amount, \<open>map_fitid\<close> succeeds exactly
  when the preference is the decimal point or the amount has no separator.
\<close>

theorem comma_preference_breaks_fitid:
  "(has_separator (amount r) \<longrightarrow>
      CHR '','' \<in> set (snd (map_amount True r ov))
      \<and> map_fitid d acc volgnr (snd (map_amount True r ov)) dtp
          = Inl (ValueError (snd (map_amount True r ov)))
      \<and> (r \<in> set (drop 1 rows) \<longrightarrow>
            (\<exists>e. main_program upper cfgfile True homebank rows = Inl e)))
   \<and> (wf_amount (amount r) \<longrightarrow>
        ((\<exists>res. map_fitid d acc volgnr (snd (map_amount dec_comma r ov)) dtp = Inr res)
           \<longleftrightarrow> \<not> dec_comma \<or> \<not> has_separator (amount r)))"
proof (intro conjI impI)
  assume h: "has_separator (amount r)"
  then have c: "CHR '','' \<in> set (snd (map_amount True r ov'))" for ov'
    by (simp add: map_amount_def comma_mapped_has_comma)
  then show "CHR '','' \<in> set (snd (map_amount True r ov))" .
  from c have n: "py_float (snd (map_amount True r ov')) = None" for ov'
    by (rule py_float_comma)
  then show "map_fitid d acc volgnr (snd (map_amount True r ov)) dtp
          = Inl (ValueError (snd (map_amount True r ov)))"
    by (simp add: map_fitid_def)
  show "\<exists>e. main_program upper cfgfile True homebank rows = Inl e" if "r \<in> set (drop 1 rows)"
    using that n by (rule main_program_float_error)
next
  assume w: "wf_amount (amount r)"
  show "(\<exists>res. map_fitid d acc volgnr (snd (map_amount dec_comma r ov)) dtp = Inr res)
           \<longleftrightarrow> \<not> dec_comma \<or> \<not> has_separator (amount r)"
  proof (cases dec_comma)
    case False
    from wf_amount_point_parses [OF w] have "py_float (snd (map_amount False r ov)) \<noteq> None"
      by (auto simp add: map_amount_def)
    with False show ?thesis unfolding map_fitid_ok_iff by simp
  next
    case True
    show ?thesis
    proof (cases "has_separator (amount r)")
      case True
      then have "py_float (snd (map_amount True r ov)) = None"
        by (intro py_float_comma) (simp add: map_amount_def comma_mapped_has_comma)
      with True \<open>dec_comma\<close> show ?thesis unfolding map_fitid_ok_iff by simp
    next
      case False
      from wf_amount_integer_parses [OF w False]
      have "py_float (snd (map_amount True r ov)) \<noteq> None"
        by (auto simp add: map_amount_def)
      with False \<open>dec_comma\<close> show ?thesis unfolding map_fitid_ok_iff by simp
    qed
  qed
qed

theorem comma_preference_breaks_fitid_witness:
  "has_separator ''-12,34'' \<and> wf_amount ''-12,34''
   \<and> map_fitid Map.empty ''A'' ''7'' (snd (map_amount True (empty_row\<lparr>amount := ''-12,34''\<rparr>) Map.empty))
        ''20230105'' = Inl (ValueError ''-12,34'')
   \<and> (\<exists>e. main_program (\<lambda>s. s) None True False [empty_row, empty_row\<lparr>amount := ''-12,34''\<rparr>]
             = Inl e)
   \<and> (\<exists>res. map_fitid Map.empty ''A'' ''7''
               (snd (map_amount False (empty_row\<lparr>amount := ''-12,34''\<rparr>) Map.empty)) ''20230105''
             = Inr res)"
proof -
  have h: "has_separator ''-12,34''"
    by (simp add: has_separator_def is_separator_def)
  have w: "wf_amount ''-12,34''"
    by (simp add: wf_amount_def is_digit_def is_separator_def)
  have a: "amount (empty_row\<lparr>amount := ''-12,34''\<rparr>) = ''-12,34''" by simp
  have m: "snd (map_amount True (empty_row\<lparr>amount := ''-12,34''\<rparr>) Map.empty) = ''-12,34''"
    by (simp add: map_amount_def replace_chr_def)
  note t1 = comma_preference_breaks_fitid [where r = "empty_row\<lparr>amount := ''-12,34''\<rparr>"
      and ov = Map.empty and d = Map.empty and acc = "''A''" and volgnr = "''7''"
      and dtp = "''20230105''" and rows = "[empty_row, empty_row\<lparr>amount := ''-12,34''\<rparr>]"
      and upper = "\<lambda>s. s" and cfgfile = None and homebank = False and dec_comma = False]
  show ?thesis
    using t1 h w unfolding a m by simp
qed

lemma run_emitted_no_accounts:
  assumes "run hb c txns = Inr w" and "config_accounts c = []"
  shows "t \<in> set (emitted (ofxfile w)) \<longleftrightarrow>
           t \<in> set txns
           \<and> (hb \<or> accountto t \<notin> set (takeWhile (\<lambda>k. k \<noteq> account t) (map fst (accounts w))))"
  by (simp add: run_emitted_iff [OF assms(1)] keep_def gather_transfer_accounts_eq assms(2))
     blast

subsection \<open>A configuration without a section\<close>

lemma Cfg_init_empty_accounts:
  "Cfg_init (\<lambda>s. s) (Some config_empty_accounts)
     = Inr \<lparr>config_accounts = [], config_overrides = [''force_date_posted'' \<mapsto> []]\<rparr>"
  by (simp add: Cfg_init_def config_empty_accounts_def)

lemma create_ofx_transfer_row:
  "create_ofx False [''force_date_posted'' \<mapsto> []] d (transfer_row [a] [b]) =
     (case map_fitid d (replace_chr (CHR '' '') [] [a]) ''1'' ''1'' ''20180105'' of
        Inl e \<Rightarrow> Inl e
      | Inr (fid, d') \<Rightarrow>
          Inr (\<lparr>account = replace_chr (CHR '' '') [] [a], trntype = ''CREDIT'',
                dtposted = ''20180105'', trnamt = ''1'', fitid = fid, name = [b], accountto = [b], memo = [], nr_overrides = 0\<rparr>, d'))"
  by (simp add: create_ofx_def transfer_row_def example_row_def empty_row_def map_account_def
        map_transaction_type_def map_date_posted_def map_amount_def map_account_to_def
        map_memo_name_def replace_chr_def py_strip_def strip_with_def split: sum.splits)

lemma CsvFile_init_transfer_rows:
  "CsvFile_init False [''force_date_posted'' \<mapsto> []] transfer_rows
     = Inr [transfer_leg ''A'' ''B'', transfer_leg ''B'' ''A'']"
  by (simp add: CsvFile_init_def transfer_rows_def create_ofx_transfer_row replace_chr_def
        map_fitid_def py_float_1 fitid_key_def Let_def str_int_small transfer_leg_def)

lemma main_program_single:
  "main_program (\<lambda>s. s) (Some config_empty_accounts) False False transfer_rows
     = Inr \<lparr>accounts = [(''A'', \<lparr>txn_ctr = 1, txn_skip = 0, txn_processed = 1, acc_overrides = 0\<rparr>),
                         (''B'', \<lparr>txn_ctr = 1, txn_skip = 1, txn_processed = 0, acc_overrides = 0\<rparr>)],
            processed_accounts = {''A'', ''B''},
            ofxfile = [MessageHeader, AccountStart ''A'' 20180105 20180105,
                       Transaction (transfer_leg ''A'' ''B''), AccountEnd,
                       AccountStart ''B'' 20180105 20180105, AccountEnd, MessageFooter]\<rparr>"
  by (simp add: main_program_def Cfg_init_empty_accounts CsvFile_init_transfer_rows)
     (simp add: run_eval transfer_leg_def insert_commute)

lemma main_program_dual:
  "main_program (\<lambda>s. s) (Some config_empty_accounts) False True transfer_rows
     = Inr \<lparr>accounts = [(''A'', \<lparr>txn_ctr = 1, txn_skip = 0, txn_processed = 1, acc_overrides = 0\<rparr>),
                         (''B'', \<lparr>txn_ctr = 1, txn_skip = 0, txn_processed = 1, acc_overrides = 0\<rparr>)],
            processed_accounts = {''A'', ''B''},
            ofxfile = [MessageHeader, AccountStart ''A'' 20180105 20180105,
                       Transaction (transfer_leg ''A'' ''B''), AccountEnd,
                       AccountStart ''B'' 20180105 20180105,
                       Transaction (transfer_leg ''B'' ''A''), AccountEnd, MessageFooter]\<rparr>"
  by (simp add: main_program_def Cfg_init_empty_accounts CsvFile_init_transfer_rows)
     (simp add: run_eval transfer_leg_def insert_commute)

text \<open>
  With a configuration file that has an override section and no accounts section the run
  fails with KeyError, before the first row is read.
\<close>

theorem missing_section_example:
  "main_program (\<lambda>s. s) (Some config_without_accounts) False False transfer_rows
     = Inl (KeyError ''accounts'')"
  by (simp add: main_program_def Cfg_init_def config_without_accounts_def)

text \<open>
  C2, as the code has it. When the configuration file is present and its accounts section
  is missing, building the configuration raises KeyError and the run fails. The list of
  configured accounts is empty when the accounts section is there without an entry, the
  override section being there too: then the configuration is built, every account is
  unknown to \<open>gather_transfer_accounts\<close>, which returns exactly the accounts already
  processed, and a run that completes writes every transaction in dual-leg mode, and in
  single-leg mode every transaction but those whose counter account was processed earlier
  in the run.
\<close>

theorem missing_section_raises:
  "(config ''accounts'' = None \<longrightarrow>
      Cfg_init upper (Some config) = Inl (KeyError ''accounts'')
      \<and> main_program upper (Some config) dec_comma homebank rows = Inl (KeyError ''accounts''))
   \<and> (config ''accounts'' = Some [] \<and> config ''override'' = Some ovs \<longrightarrow>
        (\<exists>c. Cfg_init upper (Some config) = Inr c
           \<and> config_accounts c = []
           \<and> (\<forall>P a. a \<notin> set (config_accounts c) \<and> gather_transfer_accounts c P a = P)
           \<and> (\<forall>txns w.
                 CsvFile_init dec_comma (config_overrides c) rows = Inr txns
                 \<and> main_program upper (Some config) dec_comma homebank rows = Inr w \<longrightarrow>
                 set (emitted (ofxfile w))
                   = {t \<in> set txns.
                        homebank
                        \<or> accountto t
                            \<notin> set (takeWhile (\<lambda>k. k \<noteq> account t) (map fst (accounts w)))})))"
proof (intro conjI impI)
  assume "config ''accounts'' = None"
  then show "Cfg_init upper (Some config) = Inl (KeyError ''accounts'')"
    and "main_program upper (Some config) dec_comma homebank rows = Inl (KeyError ''accounts'')"
    by (simp_all add: main_program_def Cfg_init_def)
next
  assume h: "config ''accounts'' = Some [] \<and> config ''override'' = Some ovs"
  define c where
    "c = \<lparr>config_accounts = [],
          config_overrides = fold (\<lambda>(k, v) m. m(k \<mapsto> v)) ovs Map.empty\<rparr>"
  have init: "Cfg_init upper (Some config) = Inr c"
    using h by (simp add: Cfg_init_def c_def)
  have empty: "config_accounts c = []"
    by (simp add: c_def)
  have gather: "a \<notin> set (config_accounts c) \<and> gather_transfer_accounts c P a = P" for P a
    using empty by (simp add: gather_transfer_accounts_eq)
  have written: "set (emitted (ofxfile w))
          = {t \<in> set txns.
               homebank
               \<or> accountto t \<notin> set (takeWhile (\<lambda>k. k \<noteq> account t) (map fst (accounts w)))}"
    if "CsvFile_init dec_comma (config_overrides c) rows = Inr txns
        \<and> main_program upper (Some config) dec_comma homebank rows = Inr w" for txns w
  proof -
    from that have csv: "CsvFile_init dec_comma (config_overrides c) rows = Inr txns"
      and main: "main_program upper (Some config) dec_comma homebank rows = Inr w"
      by simp_all
    from main have "run homebank c txns = Inr w"
      unfolding main_program_def init by (simp add: csv)
    from run_emitted_no_accounts [OF this empty] show ?thesis by blast
  qed
  from init empty gather written
  show "\<exists>c. Cfg_init upper (Some config) = Inr c
           \<and> config_accounts c = []
           \<and> (\<forall>P a. a \<notin> set (config_accounts c) \<and> gather_transfer_accounts c P a = P)
           \<and> (\<forall>txns w.
                 CsvFile_init dec_comma (config_overrides c) rows = Inr txns
                 \<and> main_program upper (Some config) dec_comma homebank rows = Inr w \<longrightarrow>
                 set (emitted (ofxfile w))
                   = {t \<in> set txns.
                        homebank
                        \<or> accountto t
                            \<notin> set (takeWhile (\<lambda>k. k \<noteq> account t) (map fst (accounts w)))})"
    by blast
qed

theorem missing_section_raises_witness:
  "config_without_accounts ''accounts'' = None
   \<and> main_program (\<lambda>s. s) (Some config_without_accounts) False False transfer_rows
       = Inl (KeyError ''accounts'')
   \<and> config_empty_accounts ''accounts'' = Some []
   \<and> config_empty_accounts ''override'' = Some [(''force_date_posted'', [])]
   \<and> (case main_program (\<lambda>s. s) (Some config_empty_accounts) False False transfer_rows of
         Inl e \<Rightarrow> False
       | Inr w \<Rightarrow> set (emitted (ofxfile w)) = {transfer_leg ''A'' ''B''})
   \<and> (case main_program (\<lambda>s. s) (Some config_empty_accounts) False True transfer_rows of
         Inl e \<Rightarrow> False
       | Inr w \<Rightarrow> set (emitted (ofxfile w))
                    = {transfer_leg ''A'' ''B'', transfer_leg ''B'' ''A''})"
proof -
  have a: "config_without_accounts ''accounts'' = None"
    by (simp add: config_without_accounts_def)
  have b: "config_empty_accounts ''accounts'' = Some []
           \<and> config_empty_accounts ''override'' = Some [(''force_date_posted'', [])]"
    by (simp add: config_empty_accounts_def)
  note t0 = missing_section_raises [where config = config_without_accounts
      and upper = "\<lambda>s. s" and dec_comma = False and homebank = False and rows = transfer_rows]
  from t0 a
  have r0: "main_program (\<lambda>s. s) (Some config_without_accounts) False False transfer_rows
              = Inl (KeyError ''accounts'')"
    by blast
  have r: "set (emitted (ofxfile w))
             = {t \<in> {transfer_leg ''A'' ''B'', transfer_leg ''B'' ''A''}.
                  hb \<or> accountto t
                         \<notin> set (takeWhile (\<lambda>k. k \<noteq> account t) (map fst (accounts w)))}"
    if "main_program (\<lambda>s. s) (Some config_empty_accounts) False hb transfer_rows = Inr w"
    for hb w
  proof -
    note t1 = missing_section_raises [where config = config_empty_accounts
        and upper = "\<lambda>s. s" and dec_comma = False and homebank = hb and rows = transfer_rows
        and ovs = "[(''force_date_posted'', [])]"]
    with b obtain c where
      c: "Cfg_init (\<lambda>s. s) (Some config_empty_accounts) = Inr c"
      and e: "\<And>txns w.
                 CsvFile_init False (config_overrides c) transfer_rows = Inr txns
                 \<and> main_program (\<lambda>s. s) (Some config_empty_accounts) False hb transfer_rows
                     = Inr w \<Longrightarrow>
                 set (emitted (ofxfile w))
                   = {t \<in> set txns.
                        hb \<or> accountto t
                            \<notin> set (takeWhile (\<lambda>k. k \<noteq> account t) (map fst (accounts w)))}"
      by blast
    from c have "config_overrides c = [''force_date_posted'' \<mapsto> []]"
      unfolding Cfg_init_empty_accounts by auto
    with e [of "[transfer_leg ''A'' ''B'', transfer_leg ''B'' ''A'']" w] that
    show ?thesis
      by (simp add: CsvFile_init_transfer_rows)
  qed
  have s: "(case main_program (\<lambda>s. s) (Some config_empty_accounts) False False transfer_rows of
         Inl e \<Rightarrow> False
       | Inr w \<Rightarrow> set (emitted (ofxfile w)) = {transfer_leg ''A'' ''B''})"
    using r [OF main_program_single] unfolding main_program_single
    by (auto simp add: transfer_leg_def)
  have d: "(case main_program (\<lambda>s. s) (Some config_empty_accounts) False True transfer_rows of
         Inl e \<Rightarrow> False
       | Inr w \<Rightarrow> set (emitted (ofxfile w))
                    = {transfer_leg ''A'' ''B'', transfer_leg ''B'' ''A''})"
    using r [OF main_program_dual] unfolding main_program_dual
    by (auto simp add: transfer_leg_def)
  from a r0 b s d show ?thesis by blast
qed

end
